theory Spec2Isabelle
  imports Complex_Main "HOL-Library.Word"
begin

section \<open>Strings and errors\<close>

text \<open>
  An ECMAScript string is a sequence of 16-bit UTF-16 code units; \<open>length\<close>, the index
  \<open>i\<close> of the tokenizer and the offsets of a token all count code units. A thrown
  exception is a value of \<open>js_error\<close>, and a computation that may throw returns
  \<open>js_error + 'a\<close> with \<open>Inl\<close> for the exception.
\<close>

type_synonym jsstring = "16 word list"

datatype js_error = TypeError | RangeError | OtherError

section \<open>tokenizer.ts\<close>

subsection \<open>Data\<close>

text \<open>
  The interface \<open>Token\<close>. \<open>start\<close> and \<open>end\<close> are offsets in code units; they are
  integers because the source computes \<open>i - 1\<close> and \<open>length - 1\<close>.
\<close>

record Token =
  tok_start :: int
  tok_end :: int
  tok_text :: jsstring
  tok_normalized :: jsstring

text \<open>
  The variable \<open>token\<close> of \<open>defaultTokenizer\<close> holds \<open>undefined\<close> or an object created
  as \<open>{ start: i, text: chr }\<close>, whose \<open>end\<close> and \<open>normalized\<close> are assigned only by
  \<open>appendToken\<close>. The two mutable variables \<open>tokens\<close> and \<open>token\<close> are the state that the
  loop passes on.
\<close>

record open_token =
  ot_start :: int
  ot_text :: jsstring

record tokenizer_state =
  tokens :: "Token list"
  token :: "open_token option"

subsection \<open>Built-in string operations\<close>

text \<open>
  \<open>String.prototype.charCodeAt\<close> (\<open>None\<close> is NaN), \<open>String.prototype.codePointAt\<close>
  (\<open>None\<close> is \<open>undefined\<close>) and \<open>String.fromCodePoint\<close> (\<open>None\<close> is the RangeError it
  throws), as ECMAScript defines them. \<open>String.prototype.toLowerCase\<close> depends on the
  Unicode case tables and is a parameter \<open>toLowerCase\<close> of the tokenizer.
\<close>

definition charCodeAt :: "jsstring \<Rightarrow> nat \<Rightarrow> nat option" where
  "charCodeAt s pos = (if pos < length s then Some (unat (s ! pos)) else None)"

definition codePointAt :: "jsstring \<Rightarrow> nat \<Rightarrow> nat option" where
  "codePointAt s pos =
     (if pos < length s then
        (let first = unat (s ! pos) in
         if first < 0xD800 \<or> first > 0xDBFF \<or> pos + 1 = length s then Some first
         else
           (let second = unat (s ! (pos + 1)) in
            if second < 0xDC00 \<or> second > 0xDFFF then Some first
            else Some ((first - 0xD800) * 0x400 + (second - 0xDC00) + 0x10000)))
      else None)"

definition fromCodePoint :: "nat \<Rightarrow> jsstring option" where
  "fromCodePoint codePoint =
     (if codePoint > 0x10FFFF then None
      else if codePoint \<le> 0xFFFF then Some [of_nat codePoint]
      else Some [of_nat ((codePoint - 0x10000) div 0x400 + 0xD800),
                 of_nat ((codePoint - 0x10000) mod 0x400 + 0xDC00)])"

text \<open>
  The expression \<open>text.codePointAt(i) || text.charCodeAt(i)\<close>: the right operand is
  taken when the left one is \<open>undefined\<close> or 0.
\<close>

definition codePointOrCharCode :: "jsstring \<Rightarrow> nat \<Rightarrow> nat option" where
  "codePointOrCharCode s pos =
     (case codePointAt s pos of
        None \<Rightarrow> charCodeAt s pos
      | Some c \<Rightarrow> if c = 0 then charCodeAt s pos else Some c)"

subsection \<open>The tokenizer\<close>

definition isBetween :: "nat \<Rightarrow> nat \<Rightarrow> nat \<Rightarrow> bool" where
  "isBetween v from to = (v \<ge> from \<and> v \<le> to)"

definition isBreakingChar :: "nat \<Rightarrow> bool" where
  "isBreakingChar codePoint =
     (isBetween codePoint 0x0000 0x002F \<or>
      isBetween codePoint 0x003A 0x0040 \<or>
      isBetween codePoint 0x005B 0x0060 \<or>
      isBetween codePoint 0x007B 0x00BF \<or>
      isBetween codePoint 0x02B9 0x036F \<or>
      isBetween codePoint 0x2000 0x2BFF \<or>
      isBetween codePoint 0x2E00 0x2E7F)"

definition appendToken ::
  "(jsstring \<Rightarrow> jsstring) \<Rightarrow> int \<Rightarrow> tokenizer_state \<Rightarrow> tokenizer_state" where
  "appendToken toLowerCase e st =
     (case token st of
        None \<Rightarrow> st
      | Some t \<Rightarrow>
          \<lparr>tokens = tokens st @
             [\<lparr>tok_start = ot_start t, tok_end = e, tok_text = ot_text t,
               tok_normalized = toLowerCase (ot_text t)\<rparr>],
           token = None\<rparr>)"

text \<open>
  The body of the \<open>while\<close> loop after \<open>codePoint\<close> and \<open>chr\<close> are computed: the
  four-way \<open>if\<close> on the current character at index \<open>i\<close>.
\<close>

definition processChar ::
  "(jsstring \<Rightarrow> jsstring) \<Rightarrow> nat \<Rightarrow> jsstring \<Rightarrow> nat \<Rightarrow> tokenizer_state \<Rightarrow> tokenizer_state" where
  "processChar toLowerCase codePoint chr i st =
     (if isBreakingChar codePoint then appendToken toLowerCase (int i - 1) st
      else if codePoint > 0xFFFF then
        (let st' = appendToken toLowerCase (int i - 1) st in
         st'\<lparr>tokens := tokens st' @
           [\<lparr>tok_start = int i, tok_end = int i + (int (length chr) - 1),
             tok_text = chr, tok_normalized = chr\<rparr>]\<rparr>)
      else
        (case token st of
           None \<Rightarrow> st\<lparr>token := Some \<lparr>ot_start = int i, ot_text = chr\<rparr>\<rparr>
         | Some t \<Rightarrow> st\<lparr>token := Some (t\<lparr>ot_text := ot_text t @ chr\<rparr>)\<rparr>))"

text \<open>
  The loop \<open>while (i < length)\<close>. \<open>String.fromCodePoint\<close> throws a RangeError for an
  argument that is not a code point, which ends the call.
\<close>

function scanText ::
  "(jsstring \<Rightarrow> jsstring) \<Rightarrow> jsstring \<Rightarrow> nat \<Rightarrow> tokenizer_state \<Rightarrow> js_error + tokenizer_state" where
  "scanText toLowerCase txt i st =
     (if i < length txt then
        (case codePointOrCharCode txt i of
           None \<Rightarrow> Inl RangeError
         | Some codePoint \<Rightarrow>
             (case fromCodePoint codePoint of
                None \<Rightarrow> Inl RangeError
              | Some chr \<Rightarrow>
                  scanText toLowerCase txt (i + length chr)
                    (processChar toLowerCase codePoint chr i st)))
      else Inr st)"
  by pat_completeness auto
termination
proof (relation "measure (\<lambda>(toLowerCase, txt, i, st). length txt - i)")
  show "wf (measure (\<lambda>(toLowerCase, txt, i, st). length txt - i))"
    by simp
next
  fix toLowerCase :: "jsstring \<Rightarrow> jsstring" and s :: jsstring and i :: nat
    and st :: tokenizer_state and codePoint :: nat and chr :: jsstring
  assume "i < length s" and "fromCodePoint codePoint = Some chr"
  then have "length s - (i + length chr) < length s - i"
    by (auto simp: fromCodePoint_def split: if_splits)
  then show "((toLowerCase, s, i + length chr, processChar toLowerCase codePoint chr i st),
              (toLowerCase, s, i, st))
             \<in> measure (\<lambda>(toLowerCase, txt, i, st). length txt - i)"
    by simp
qed

text \<open>
  \<open>defaultTokenizer(text, locale)\<close>. \<open>text\<close> may be \<open>undefined\<close> (\<open>None\<close>), in which case
  \<open>length\<close> is 0 as it is for the empty string; \<open>locale\<close> is the optional second
  parameter.
\<close>

definition defaultTokenizer ::
  "(jsstring \<Rightarrow> jsstring) \<Rightarrow> jsstring option \<Rightarrow> jsstring option \<Rightarrow> js_error + Token list" where
  "defaultTokenizer toLowerCase txt locale =
     (let s = (case txt of None \<Rightarrow> [] | Some t \<Rightarrow> t);
          len = length s
      in case scanText toLowerCase s 0 \<lparr>tokens = [], token = None\<rparr> of
           Inl err \<Rightarrow> Inl err
         | Inr st \<Rightarrow> Inr (tokens (appendToken toLowerCase (int len - 1) st)))"

section \<open>recognizeChoices.ts\<close>

subsection \<open>Data\<close>

text \<open>
  \<open>str\<close> writes a string of the source as its code units: \<open>str ''choice''\<close> is the
  literal \<open>'choice'\<close>.
\<close>

definition str :: "string \<Rightarrow> jsstring" where
  "str s = map of_char s"

text \<open>
  \<open>Choice\<close>, \<open>FoundChoice\<close> and \<open>FindChoicesOptions\<close> are declared in \<open>./findChoices\<close> and
  \<open>ModelResult\<close> in \<open>./modelResult\<close>; \<open>recognizeChoices\<close> reads \<open>choice.value\<close> and
  \<open>options.locale\<close>, builds a \<open>FoundChoice\<close> of \<open>value\<close>, \<open>index\<close> and \<open>score\<close>, and a
  \<open>ModelResult\<close> of \<open>start\<close>, \<open>end\<close>, \<open>typeName\<close>, \<open>text\<close> and \<open>resolution\<close>. The other
  fields of a choice are the ones the specification lists (an opaque \<open>action\<close>, a list of
  \<open>synonyms\<close>); the other options are passed on to \<open>findChoices\<close> untouched and are the
  extension of the record \<open>FindChoicesOptions\<close>.
\<close>

record Choice =
  choice_value :: jsstring
  choice_action :: "jsstring option"
  choice_synonyms :: "jsstring list option"

text \<open>
  An entry of the parameter \<open>choices: (string|Choice)[]\<close>: a bare string, a choice
  object, or a falsy entry (\<open>null\<close>, \<open>undefined\<close>), which the normalization filters out.
\<close>

datatype choice_input = ChoiceString jsstring | ChoiceObject Choice | Falsy

record FoundChoice =
  fc_value :: jsstring
  fc_index :: int
  fc_score :: real

record 'r ModelResult =
  mr_text :: jsstring
  mr_start :: int
  mr_end :: int
  mr_typeName :: jsstring
  mr_resolution :: 'r

text \<open>
  A match of the ordinal or the number recognizer is a \<open>ModelResult<any>\<close>. Its
  \<open>resolution\<close> is an object with the string \<open>value\<close>, or is missing (\<open>None\<close>), in which
  case reading \<open>match.resolution.value\<close> throws a TypeError.
\<close>

record NumberResolution =
  res_value :: jsstring

type_synonym number_match = "NumberResolution option ModelResult"

record FindChoicesOptions =
  opt_locale :: "jsstring option"

subsection \<open>Collaborators\<close>

text \<open>
  \<open>recognizeChoices\<close> calls three functions that are not part of the sources:
  \<open>findChoices\<close> of \<open>./findChoices\<close> and \<open>recognizeOrdinal\<close> and \<open>recognizeNumber\<close> of the
  package \<open>@microsoft/recognizers-text-number\<close>. They are parameters; each returns its
  list of matches or throws. The built-in \<open>parseInt\<close> is a parameter as well: \<open>None\<close> is
  NaN, and \<open>Some n\<close> the integer it returns. (\<open>parseInt\<close> returns a double, which is the
  exact integer below \<open>2^53\<close>; a number beyond that is out of range for every array.)
\<close>

record 'o Env =
  findChoices ::
    "jsstring \<Rightarrow> Choice list \<Rightarrow> 'o FindChoicesOptions_scheme option \<Rightarrow>
       js_error + FoundChoice ModelResult list"
  recognizeOrdinal :: "jsstring \<Rightarrow> jsstring \<Rightarrow> js_error + number_match list"
  recognizeNumber :: "jsstring \<Rightarrow> jsstring \<Rightarrow> js_error + number_match list"
  parseInt :: "jsstring \<Rightarrow> int option"

text \<open>
  The log of collaborator calls: \<open>invoke c r calls\<close> is the call of the collaborator \<open>c\<close>
  that returns \<open>r\<close>, recorded at the end of the log.
\<close>

datatype collaborator = FindChoices | RecognizeOrdinal | RecognizeNumber

definition invoke :: "collaborator \<Rightarrow> 'r \<Rightarrow> collaborator list \<Rightarrow> 'r \<times> collaborator list" where
  "invoke c r calls = (r, calls @ [c])"

subsection \<open>The recognizer\<close>

text \<open>
  The inner function \<open>matchChoiceByIndex\<close>. \<open>matchChoiceByIndex_try\<close> is the body of its
  \<open>try\<close> block, which pushes onto \<open>matched\<close> or throws; the empty \<open>catch\<close> block leaves
  \<open>matched\<close> as it was. Both comparisons of the \<open>if\<close> are false for NaN.
\<close>

definition matchChoiceByIndex_try ::
  "(jsstring \<Rightarrow> int option) \<Rightarrow> Choice list \<Rightarrow> FoundChoice ModelResult list \<Rightarrow> number_match \<Rightarrow>
     js_error + FoundChoice ModelResult list" where
  "matchChoiceByIndex_try parseInt' list matched match =
     (case mr_resolution match of
        None \<Rightarrow> Inl TypeError
      | Some resolution \<Rightarrow>
          (case parseInt' (res_value resolution) of
             None \<Rightarrow> Inr matched
           | Some n \<Rightarrow>
               (let index = n - 1 in
                if index \<ge> 0 \<and> index < int (length list) then
                  (let choice = list ! nat index in
                   Inr (matched @
                     [\<lparr>mr_text = mr_text match, mr_start = mr_start match,
                       mr_end = mr_end match, mr_typeName = str ''choice'',
                       mr_resolution =
                         \<lparr>fc_value = choice_value choice, fc_index = index, fc_score = 1.0\<rparr>\<rparr>]))
                else Inr matched)))"

definition matchChoiceByIndex ::
  "(jsstring \<Rightarrow> int option) \<Rightarrow> Choice list \<Rightarrow> FoundChoice ModelResult list \<Rightarrow> number_match \<Rightarrow>
     FoundChoice ModelResult list" where
  "matchChoiceByIndex parseInt' list matched match =
     (case matchChoiceByIndex_try parseInt' list matched match of
        Inl err \<Rightarrow> matched
      | Inr matched' \<Rightarrow> matched')"

text \<open>
  The normalization of \<open>choices\<close>: \<open>(choices || []).map(...).filter((choice) => choice)\<close>.
  The \<open>map\<close> turns a string into \<open>{ value: choice }\<close> and leaves every other entry, so a
  falsy entry stays falsy (\<open>None\<close>); the \<open>filter\<close> keeps the truthy entries.
\<close>

definition normalizeChoice :: "choice_input \<Rightarrow> Choice option" where
  "normalizeChoice choice =
     (case choice of
        ChoiceString s \<Rightarrow> Some \<lparr>choice_value = s, choice_action = None, choice_synonyms = None\<rparr>
      | ChoiceObject c \<Rightarrow> Some c
      | Falsy \<Rightarrow> None)"

definition normalizeChoices :: "choice_input list option \<Rightarrow> Choice list" where
  "normalizeChoices choices =
     map the (filter (\<lambda>choice. choice \<noteq> None)
       (map normalizeChoice (case choices of None \<Rightarrow> [] | Some cs \<Rightarrow> cs)))"

text \<open>
  \<open>options && options.locale ? options.locale : 'en-us'\<close>: the empty string is falsy.
\<close>

definition optionsLocale :: "'o FindChoicesOptions_scheme option \<Rightarrow> jsstring" where
  "optionsLocale options =
     (case options of
        None \<Rightarrow> str ''en-us''
      | Some opts \<Rightarrow>
          (case opt_locale opts of
             None \<Rightarrow> str ''en-us''
           | Some l \<Rightarrow> if l = [] then str ''en-us'' else l))"

text \<open>
  \<open>recognizeChoices\<close> with the log of its collaborator calls. \<open>forEach\<close> is a left fold
  over the matches, and \<open>sort\<close> with the comparator \<open>a.start - b.start\<close> is the sort by
  the key \<open>start\<close>; \<open>sort_key\<close> is stable, as \<open>Array.prototype.sort\<close> is since ES2019
  (an older engine may order two matches of equal \<open>start\<close> differently). An exception of
  a collaborator ends the call.
\<close>

definition recognizeChoices_calls ::
  "'o Env \<Rightarrow> jsstring \<Rightarrow> choice_input list option \<Rightarrow> 'o FindChoicesOptions_scheme option \<Rightarrow>
     (js_error + FoundChoice ModelResult list) \<times> collaborator list" where
  "recognizeChoices_calls env utterance choices options =
     (let list = normalizeChoices choices;
          locale = optionsLocale options;
          (found, calls1) = invoke FindChoices (findChoices env utterance list options) []
      in case found of
           Inl err \<Rightarrow> (Inl err, calls1)
         | Inr matched \<Rightarrow>
             if length matched = 0 then
               (let (ords, calls2) =
                      invoke RecognizeOrdinal (recognizeOrdinal env utterance locale) calls1
                in case ords of
                     Inl err \<Rightarrow> (Inl err, calls2)
                   | Inr ordinals \<Rightarrow>
                       if length ordinals > 0 then
                         (Inr (sort_key mr_start
                                (foldl (matchChoiceByIndex (parseInt env) list) matched ordinals)),
                          calls2)
                       else
                         (let (nums, calls3) =
                                invoke RecognizeNumber (recognizeNumber env utterance locale) calls2
                          in case nums of
                               Inl err \<Rightarrow> (Inl err, calls3)
                             | Inr numbers \<Rightarrow>
                                 (Inr (sort_key mr_start
                                        (foldl (matchChoiceByIndex (parseInt env) list) matched numbers)),
                                  calls3)))
             else (Inr matched, calls1))"

definition recognizeChoices ::
  "'o Env \<Rightarrow> jsstring \<Rightarrow> choice_input list option \<Rightarrow> 'o FindChoicesOptions_scheme option \<Rightarrow>
     js_error + FoundChoice ModelResult list" where
  "recognizeChoices env utterance choices options =
     fst (recognizeChoices_calls env utterance choices options)"

section \<open>Auxiliary definitions for the tokenizer\<close>

text \<open>
  What the claims about token offsets say of a token list: each token ends strictly
  before the next one starts, and no token ends before it starts.
\<close>

definition ordered_tokens :: "Token list \<Rightarrow> bool" where
  "ordered_tokens ts =
     (sorted_wrt (\<lambda>a b. tok_end a < tok_start b) ts \<and> (\<forall>t \<in> set ts. tok_start t \<le> tok_end t))"

text \<open>
  The invariant of the loop at index \<open>i\<close>: the emitted tokens are ordered and end before
  the open token starts, which itself starts before \<open>i\<close>; with no open token they end
  before \<open>i\<close>.
\<close>

definition state_ok :: "nat \<Rightarrow> tokenizer_state \<Rightarrow> bool" where
  "state_ok i st =
     (ordered_tokens (tokens st) \<and>
      (case token st of
         None \<Rightarrow> (\<forall>t \<in> set (tokens st). tok_end t < int i)
       | Some ot \<Rightarrow> ot_start ot < int i \<and> (\<forall>t \<in> set (tokens st). tok_end t < ot_start ot)))"

text \<open>
  A token moved \<open>k\<close> code units to the right, and a tokenizer state whose tokens are
  moved and put after the tokens \<open>ts0\<close>: the state in which the scan of a suffix continues.
\<close>

definition shiftToken :: "int \<Rightarrow> Token \<Rightarrow> Token" where
  "shiftToken k t = t\<lparr>tok_start := tok_start t + k, tok_end := tok_end t + k\<rparr>"

definition shiftState :: "Token list \<Rightarrow> int \<Rightarrow> tokenizer_state \<Rightarrow> tokenizer_state" where
  "shiftState ts0 k st =
     \<lparr>tokens = ts0 @ map (shiftToken k) (tokens st),
      token = map_option (\<lambda>ot. ot\<lparr>ot_start := ot_start ot + k\<rparr>) (token st)\<rparr>"

text \<open>
  What the tokenizer does for the \<open>normalized\<close> field of a token: it is the lowercase
  form of \<open>text\<close>, or the token is a single code point above 0xFFFF and \<open>normalized\<close>
  is \<open>text\<close> itself.
\<close>

definition normalized_ok :: "(jsstring \<Rightarrow> jsstring) \<Rightarrow> Token \<Rightarrow> bool" where
  "normalized_ok toLowerCase t =
     (tok_normalized t = toLowerCase (tok_text t) \<or>
      tok_normalized t = tok_text t \<and> (\<exists>c. 0xFFFF < c \<and> fromCodePoint c = Some (tok_text t)))"

text \<open>
  \<open>toLowerCase\<close> on strings of ASCII characters, where it maps \<open>A\<close> .. \<open>Z\<close> to
  \<open>a\<close> .. \<open>z\<close> and leaves every other character; the concrete examples use it.
\<close>

definition toLowerCaseASCII :: "jsstring \<Rightarrow> jsstring" where
  "toLowerCaseASCII s =
     map (\<lambda>u. if 0x41 \<le> unat u \<and> unat u \<le> 0x5A then u + 0x20 else u) s"

section \<open>Auxiliary definitions for the recognizer\<close>

text \<open>
  The result that the specification gives for one match of the ordinal or number
  recognizer (section 4.3, step 2): the index is the integer-parsed value minus 1; if it
  lies within the normalized choice list, a result of type \<open>choice\<close> with the indexed
  choice's value, the index and the score 1.0 is emitted, which copies \<open>start\<close>, \<open>end\<close> and
  \<open>text\<close> of the match; a value that does not parse emits nothing.
\<close>

definition fallbackResult_spec ::
  "(jsstring \<Rightarrow> int option) \<Rightarrow> Choice list \<Rightarrow> number_match \<Rightarrow> FoundChoice ModelResult option" where
  "fallbackResult_spec parseInt' list match =
     (case mr_resolution match of
        None \<Rightarrow> None
      | Some resolution \<Rightarrow>
          (case parseInt' (res_value resolution) of
             None \<Rightarrow> None
           | Some parsed \<Rightarrow>
               if 0 \<le> parsed - 1 \<and> parsed - 1 < int (length list) then
                 Some \<lparr>mr_text = mr_text match, mr_start = mr_start match, mr_end = mr_end match,
                       mr_typeName = str ''choice'',
                       mr_resolution =
                         \<lparr>fc_value = choice_value (list ! nat (parsed - 1)),
                          fc_index = parsed - 1, fc_score = 1\<rparr>\<rparr>
               else None))"

text \<open>
  A malformed candidate, in the words of the specification's error taxonomy: its value
  fails integer parsing or its index is out of range. A match without a resolution is
  counted as well.
\<close>

definition malformed :: "(jsstring \<Rightarrow> int option) \<Rightarrow> Choice list \<Rightarrow> number_match \<Rightarrow> bool" where
  "malformed parseInt' list match =
     (case mr_resolution match of
        None \<Rightarrow> True
      | Some resolution \<Rightarrow>
          (case parseInt' (res_value resolution) of
             None \<Rightarrow> True
           | Some parsed \<Rightarrow> parsed - 1 < 0 \<or> int (length list) \<le> parsed - 1))"

text \<open>
  Modelled from the spec: \<open>findChoices\<close> (the module \<open>./findChoices\<close>) is not among the
  sources. Section 4.2, step 6 of the specification says of its results: "Results are
  emitted sorted by \<open>start\<close> ascending." This is that guarantee for one call.
\<close>

definition findChoices_sorted ::
  "'o Env \<Rightarrow> jsstring \<Rightarrow> Choice list \<Rightarrow> 'o FindChoicesOptions_scheme option \<Rightarrow> bool" where
  "findChoices_sorted env utterance list options =
     (case findChoices env utterance list options of
        Inl err \<Rightarrow> True
      | Inr found \<Rightarrow> sorted (map mr_start found))"

text \<open>
  Collaborators for the concrete examples. \<open>parseIntDecimal\<close> is \<open>parseInt\<close> on the strings
  that start with an optional sign and decimal digits or with a character that no number
  starts with (no leading white space, no \<open>0x\<close> prefix): the digits are read up to the first
  other character, and with no digit the result is NaN. \<open>stubEnv\<close> answers every call
  with the given lists and parses with \<open>parseIntDecimal\<close>.
\<close>

fun decimalDigits :: "jsstring \<Rightarrow> nat list" where
  "decimalDigits [] = []"
| "decimalDigits (u # us) =
     (if 0x30 \<le> unat u \<and> unat u \<le> 0x39 then (unat u - 0x30) # decimalDigits us else [])"

definition parseIntDecimal :: "jsstring \<Rightarrow> int option" where
  "parseIntDecimal s =
     (let (sign, body) =
            (case s of
               [] \<Rightarrow> (1, s)
             | u # us \<Rightarrow> if u = 0x2D then (- 1, us) else if u = 0x2B then (1, us) else (1, s));
          digits = decimalDigits body
      in if digits = [] then None
         else Some (sign * int (foldl (\<lambda>a d. 10 * a + d) 0 digits)))"

definition numberMatch :: "jsstring \<Rightarrow> int \<Rightarrow> int \<Rightarrow> jsstring \<Rightarrow> number_match" where
  "numberMatch t s e v =
     \<lparr>mr_text = t, mr_start = s, mr_end = e, mr_typeName = str ''number'',
      mr_resolution = Some \<lparr>res_value = v\<rparr>\<rparr>"

definition foundChoice :: "jsstring \<Rightarrow> int \<Rightarrow> int \<Rightarrow> jsstring \<Rightarrow> int \<Rightarrow> FoundChoice ModelResult" where
  "foundChoice t s e v i =
     \<lparr>mr_text = t, mr_start = s, mr_end = e, mr_typeName = str ''choice'',
      mr_resolution = \<lparr>fc_value = v, fc_index = i, fc_score = 1\<rparr>\<rparr>"

definition stubEnv ::
  "FoundChoice ModelResult list \<Rightarrow> number_match list \<Rightarrow> number_match list \<Rightarrow> unit Env" where
  "stubEnv found ordinals numbers =
     \<lparr>findChoices = (\<lambda>utterance list options. Inr found),
      recognizeOrdinal = (\<lambda>utterance locale. Inr ordinals),
      recognizeNumber = (\<lambda>utterance locale. Inr numbers),
      parseInt = parseIntDecimal\<rparr>"

definition colours :: "choice_input list" where
  "colours = [ChoiceString (str ''red''), ChoiceString (str ''green''), ChoiceString (str ''blue'')]"

text \<open>A list of choices whose first entry is \<open>null\<close>.\<close>

definition withNull :: "choice_input list" where
  "withNull = [Falsy, ChoiceString (str ''red''), ChoiceString (str ''green'')]"

section \<open>The tokenizer: lemmas\<close>


lemma unat16_bound: "unat (u :: 16 word) < 65536"
  using unsigned_less [of u, where ?'a = nat] by simp

lemma fromCodePoint_pair:
  fixes hi lo :: "16 word"
  assumes "0xD800 \<le> unat hi" "unat hi \<le> 0xDBFF" "0xDC00 \<le> unat lo" "unat lo \<le> 0xDFFF"
  shows "fromCodePoint ((unat hi - 0xD800) * 0x400 + (unat lo - 0xDC00) + 0x10000) = Some [hi, lo]"
proof -
  define a where "a = unat hi - 0xD800"
  define b where "b = unat lo - 0xDC00"
  have a: "a < 0x400" "a + 0xD800 = unat hi" using assms by (auto simp: a_def)
  have b: "b < 0x400" "b + 0xDC00 = unat lo" using assms by (auto simp: b_def)
  have d: "(a * 0x400 + b) div 0x400 = a" using b(1) by simp
  have m: "(a * 0x400 + b) mod 0x400 = b" using b(1) by simp
  have le: "a * 0x400 + b + 0x10000 \<le> 0x10FFFF" using a(1) b(1) by simp
  have gt: "\<not> a * 0x400 + b + 0x10000 \<le> 0xFFFF" by simp
  have "fromCodePoint (a * 0x400 + b + 0x10000) =
          Some [of_nat (a + 0xD800), of_nat (b + 0xDC00)]"
    unfolding fromCodePoint_def using le gt d m by simp
  then show ?thesis
    unfolding a(2) b(2) by (simp add: a_def b_def)
qed

lemma fromCodePoint_unit:
  fixes u :: "16 word"
  shows "fromCodePoint (unat u) = Some [u]"
  using unat16_bound [of u] by (simp add: fromCodePoint_def)


declare scanText.simps [simp del]

lemma supplementary_not_breaking: "0xFFFF < c \<Longrightarrow> \<not> isBreakingChar c"
  by (simp add: isBreakingChar_def isBetween_def)

lemma codePointOrCharCode_cases:
  assumes "i < length s"
  shows "(codePointOrCharCode s i = Some (unat (s ! i)) \<and>
            fromCodePoint (unat (s ! i)) = Some [s ! i] \<and> unat (s ! i) \<le> 0xFFFF \<and>
            \<not> (i + 1 < length s \<and> 0xD800 \<le> unat (s ! i) \<and> unat (s ! i) \<le> 0xDBFF \<and>
               0xDC00 \<le> unat (s ! (i + 1)) \<and> unat (s ! (i + 1)) \<le> 0xDFFF)) \<or>
         (i + 1 < length s \<and> 0xD800 \<le> unat (s ! i) \<and> unat (s ! i) \<le> 0xDBFF \<and>
            0xDC00 \<le> unat (s ! (i + 1)) \<and> unat (s ! (i + 1)) \<le> 0xDFFF \<and>
            (\<exists>c. codePointOrCharCode s i = Some c \<and> 0xFFFF < c \<and>
                 fromCodePoint c = Some [s ! i, s ! (i + 1)]))"
proof -
  let ?u = "unat (s ! i)"
  let ?pair = "i + 1 < length s \<and> 0xD800 \<le> ?u \<and> ?u \<le> 0xDBFF \<and>
               0xDC00 \<le> unat (s ! (i + 1)) \<and> unat (s ! (i + 1)) \<le> 0xDFFF"
  show ?thesis
  proof (cases ?pair)
    case True
    let ?c = "(?u - 0xD800) * 0x400 + (unat (s ! (i + 1)) - 0xDC00) + 0x10000"
    from True assms have "codePointAt s i = Some ?c"
      by (auto simp: codePointAt_def Let_def)
    then have "codePointOrCharCode s i = Some ?c"
      by (simp add: codePointOrCharCode_def)
    moreover have "0xFFFF < ?c" by simp
    moreover have "fromCodePoint ?c = Some [s ! i, s ! (i + 1)]"
      using True by (intro fromCodePoint_pair) auto
    ultimately show ?thesis using True by blast
  next
    case False
    with assms have "codePointAt s i = Some ?u"
      by (auto simp: codePointAt_def Let_def)
    then have "codePointOrCharCode s i = Some ?u"
      using assms by (simp add: codePointOrCharCode_def charCodeAt_def)
    moreover have "?u \<le> 0xFFFF" using unat16_bound [of "s ! i"] by simp
    ultimately show ?thesis using False fromCodePoint_unit [of "s ! i"] by blast
  qed
qed

lemma scanText_step:
  assumes "i < length s"
  obtains c chr where "codePointOrCharCode s i = Some c" and "fromCodePoint c = Some chr"
    and "0 < length chr" and "i + length chr \<le> length s"
    and "scanText lc s i st = scanText lc s (i + length chr) (processChar lc c chr i st)"
proof -
  from codePointOrCharCode_cases [OF assms]
  obtain c chr where c: "codePointOrCharCode s i = Some c" "fromCodePoint c = Some chr"
    and l: "0 < length chr" "i + length chr \<le> length s"
    using assms by (elim disjE conjE exE) (fastforce+)
  have "scanText lc s i st = scanText lc s (i + length chr) (processChar lc c chr i st)"
    using assms c by (subst scanText.simps) simp
  with c l that show thesis by blast
qed

lemma scanText_done: "\<not> i < length s \<Longrightarrow> scanText lc s i st = Inr st"
  by (subst scanText.simps) simp

lemma scanText_total: "\<exists>st'. scanText lc s i st = Inr st'"
proof (induction "length s - i" arbitrary: i st rule: less_induct)
  case less
  show ?case
  proof (cases "i < length s")
    case True
    from scanText_step [OF True, of lc st] obtain c chr where
      l: "0 < length chr" "i + length chr \<le> length s" and
      e: "scanText lc s i st = scanText lc s (i + length chr) (processChar lc c chr i st)"
      by metis
    have "length s - (i + length chr) < length s - i" using l True by arith
    from less [OF this] e show ?thesis by simp
  next
    case False
    then show ?thesis by (simp add: scanText_done)
  qed
qed


lemma appendToken_ok:
  assumes "state_ok i st" and "int i - 1 \<le> e" and "e < int j"
  shows "state_ok j (appendToken lc e st) \<and> token (appendToken lc e st) = None"
proof (cases "token st")
  case None
  with assms show ?thesis
    by (auto simp: state_ok_def appendToken_def)
next
  case (Some ot)
  with assms show ?thesis
    by (auto simp: state_ok_def appendToken_def ordered_tokens_def sorted_wrt_append)
qed

lemma processChar_ok:
  assumes "state_ok i st" and "0 < length chr"
  shows "state_ok (i + length chr) (processChar lc c chr i st)"
proof -
  consider (brk) "isBreakingChar c"
    | (sup) "\<not> isBreakingChar c" "0xFFFF < c"
    | (new) "\<not> isBreakingChar c" "\<not> 0xFFFF < c" "token st = None"
    | (ext) ot where "\<not> isBreakingChar c" "\<not> 0xFFFF < c" "token st = Some ot"
    by (cases "token st") auto
  then show ?thesis
  proof cases
    case brk
    with appendToken_ok [OF assms(1), of "int i - 1" "i + length chr" lc] assms(2)
    show ?thesis by (simp add: processChar_def)
  next
    case sup
    from appendToken_ok [OF assms(1), of "int i - 1" i lc]
    have a: "state_ok i (appendToken lc (int i - 1) st)"
      and n: "token (appendToken lc (int i - 1) st) = None" by simp_all
    from a n assms(2) sup show ?thesis
      by (auto simp: processChar_def Let_def state_ok_def ordered_tokens_def sorted_wrt_append)
  next
    case new
    with assms show ?thesis
      by (auto simp: processChar_def state_ok_def)
  next
    case ext
    with assms show ?thesis
      by (auto simp: processChar_def state_ok_def)
  qed
qed

lemma scanText_ok:
  assumes "state_ok i st" and "i \<le> length s" and "scanText lc s i st = Inr st'"
  shows "state_ok (length s) st'"
  using assms
proof (induction "length s - i" arbitrary: i st rule: less_induct)
  case less
  show ?case
  proof (cases "i < length s")
    case True
    from scanText_step [OF True, of lc st] obtain c chr where
      l: "0 < length chr" "i + length chr \<le> length s" and
      e: "scanText lc s i st = scanText lc s (i + length chr) (processChar lc c chr i st)"
      by metis
    have d: "length s - (i + length chr) < length s - i" using l True by arith
    have ok: "state_ok (i + length chr) (processChar lc c chr i st)"
      using less.prems(1) l(1) by (rule processChar_ok)
    from less.hyps [OF d ok l(2)] e less.prems(3) show ?thesis by simp
  next
    case False
    with less.prems show ?thesis by (simp add: scanText_done)
  qed
qed

lemma defaultTokenizer_ordered:
  "\<exists>ts. defaultTokenizer lc txt loc = Inr ts \<and> ordered_tokens ts"
proof -
  define s where "s = (case txt of None \<Rightarrow> [] | Some t \<Rightarrow> t)"
  obtain st where st: "scanText lc s 0 \<lparr>tokens = [], token = None\<rparr> = Inr st"
    using scanText_total by blast
  have "state_ok 0 \<lparr>tokens = [], token = None\<rparr>"
    by (simp add: state_ok_def ordered_tokens_def)
  from scanText_ok [OF this _ st] have ok: "state_ok (length s) st" by simp
  have "state_ok (length s) (appendToken lc (int (length s) - 1) st)"
    using appendToken_ok [OF ok, of "int (length s) - 1" "length s" lc] by simp
  then have "ordered_tokens (tokens (appendToken lc (int (length s) - 1) st))"
    by (simp add: state_ok_def)
  moreover have "defaultTokenizer lc txt loc = Inr (tokens (appendToken lc (int (length s) - 1) st))"
    using st by (simp add: defaultTokenizer_def s_def Let_def)
  ultimately show ?thesis by blast
qed

lemma ordered_tokens_nth:
  assumes "ordered_tokens ts"
  shows "(\<forall>t \<in> set ts. tok_start t \<le> tok_end t) \<and> sorted (map tok_start ts) \<and>
         (\<forall>i j. i < j \<and> j < length ts \<longrightarrow> tok_end (ts ! i) < tok_start (ts ! j))"
proof -
  from assms have sw: "sorted_wrt (\<lambda>a b. tok_end a < tok_start b) ts"
    and se: "\<forall>t \<in> set ts. tok_start t \<le> tok_end t"
    by (simp_all add: ordered_tokens_def)
  have nth: "\<forall>i j. i < j \<and> j < length ts \<longrightarrow> tok_end (ts ! i) < tok_start (ts ! j)"
    using sw by (simp add: sorted_wrt_iff_nth_less)
  have "sorted_wrt (\<lambda>a b. tok_start a \<le> tok_start b) ts"
  proof (rule sorted_wrt_mono_rel [OF _ sw])
    fix a b assume "a \<in> set ts" "b \<in> set ts" "tok_end a < tok_start b"
    with se show "tok_start a \<le> tok_start b" by force
  qed
  then have "sorted (map tok_start ts)" by (simp add: sorted_map)
  with se nth show ?thesis by blast
qed




lemma appendToken_shift:
  "appendToken lc (e + k) (shiftState ts0 k st) = shiftState ts0 k (appendToken lc e st)"
  by (cases "token st") (simp_all add: appendToken_def shiftState_def shiftToken_def)

lemma processChar_shift:
  "processChar lc c chr (n + j) (shiftState ts0 (int n) st) =
     shiftState ts0 (int n) (processChar lc c chr j st)"
proof -
  have e: "int (n + j) - 1 = (int j - 1) + int n" by simp
  show ?thesis
    unfolding processChar_def e appendToken_shift Let_def
    by (cases "token st") (simp_all add: shiftState_def shiftToken_def)
qed

lemma codePointOrCharCode_append_right:
  "codePointOrCharCode (pre @ s) (length pre + j) = codePointOrCharCode s j"
  by (simp add: codePointOrCharCode_def codePointAt_def charCodeAt_def Let_def nth_append
      add.assoc)

lemma scanText_shift:
  "scanText lc (pre @ s) (length pre + j) (shiftState ts0 (int (length pre)) st) =
     (case scanText lc s j st of
        Inl err \<Rightarrow> Inl err
      | Inr st' \<Rightarrow> Inr (shiftState ts0 (int (length pre)) st'))"
proof (induction "length s - j" arbitrary: j st rule: less_induct)
  case less
  show ?case
  proof (cases "j < length s")
    case True
    from scanText_step [OF True, of lc st] obtain c chr where
      c: "codePointOrCharCode s j = Some c" "fromCodePoint c = Some chr" and
      l: "0 < length chr" "j + length chr \<le> length s" and
      e: "scanText lc s j st = scanText lc s (j + length chr) (processChar lc c chr j st)"
      by metis
    have d: "length s - (j + length chr) < length s - j" using l True by arith
    have "scanText lc (pre @ s) (length pre + j) (shiftState ts0 (int (length pre)) st) =
          scanText lc (pre @ s) (length pre + (j + length chr))
            (shiftState ts0 (int (length pre)) (processChar lc c chr j st))"
      using True c
      by (subst scanText.simps)
         (simp add: codePointOrCharCode_append_right processChar_shift add.assoc)
    also have "\<dots> = (case scanText lc s (j + length chr) (processChar lc c chr j st) of
        Inl err \<Rightarrow> Inl err
      | Inr st' \<Rightarrow> Inr (shiftState ts0 (int (length pre)) st'))"
      by (rule less [OF d])
    finally show ?thesis by (simp add: e)
  next
    case False
    then show ?thesis by (simp add: scanText_done)
  qed
qed

text \<open>A unit that is not a low surrogate never joins the unit before it.\<close>

lemma codePointOrCharCode_append_left:
  assumes "i < length pre" and "\<not> (0xDC00 \<le> unat u \<and> unat u \<le> 0xDFFF)"
  shows "codePointOrCharCode (pre @ u # rest) i = codePointOrCharCode pre i"
proof (cases "i + 1 < length pre")
  case True
  with assms(1) show ?thesis
    by (simp add: codePointOrCharCode_def codePointAt_def charCodeAt_def Let_def nth_append)
next
  case False
  with assms(1) have i: "i + 1 = length pre" by simp
  then have n: "(pre @ u # rest) ! (i + 1) = u" "(pre @ u # rest) ! i = pre ! i"
    using assms(1) by (simp_all add: nth_append)
  show ?thesis
    using assms i n
    by (auto simp: codePointOrCharCode_def codePointAt_def charCodeAt_def Let_def)
qed

lemma scanText_prefix:
  assumes "\<not> (0xDC00 \<le> unat u \<and> unat u \<le> 0xDFFF)" and "i \<le> length pre"
  shows "scanText lc (pre @ u # rest) i st =
     (case scanText lc pre i st of
        Inl err \<Rightarrow> Inl err
      | Inr st' \<Rightarrow> scanText lc (pre @ u # rest) (length pre) st')"
  using assms(2)
proof (induction "length pre - i" arbitrary: i st rule: less_induct)
  case less
  show ?case
  proof (cases "i < length pre")
    case True
    from scanText_step [OF True, of lc st] obtain c chr where
      c: "codePointOrCharCode pre i = Some c" "fromCodePoint c = Some chr" and
      l: "0 < length chr" "i + length chr \<le> length pre" and
      e: "scanText lc pre i st = scanText lc pre (i + length chr) (processChar lc c chr i st)"
      by metis
    have d: "length pre - (i + length chr) < length pre - i" using l True by arith
    have "scanText lc (pre @ u # rest) i st =
          scanText lc (pre @ u # rest) (i + length chr) (processChar lc c chr i st)"
      using True c codePointOrCharCode_append_left [OF True assms(1), of rest]
      by (subst scanText.simps) simp
    also have "\<dots> = (case scanText lc pre (i + length chr) (processChar lc c chr i st) of
        Inl err \<Rightarrow> Inl err
      | Inr st' \<Rightarrow> scanText lc (pre @ u # rest) (length pre) st')"
      by (rule less.hyps [OF d l(2)])
    finally show ?thesis by (simp add: e)
  next
    case False
    with less.prems have "i = length pre" by simp
    then show ?thesis by (simp add: scanText_done)
  qed
qed




lemma supplementary_pair:
  assumes "codePointAt [hi, lo] 0 = Some c" and "0xFFFF < c"
  shows "0xD800 \<le> unat hi \<and> unat hi \<le> 0xDBFF \<and> 0xDC00 \<le> unat lo \<and> unat lo \<le> 0xDFFF"
  using assms unat16_bound [of hi]
  by (auto simp: codePointAt_def Let_def split: if_splits)

text \<open>
  The \<open>normalized\<close> field: lowercased by \<open>appendToken\<close>, copied from \<open>text\<close> in the
  supplementary-plane branch.
\<close>

lemma appendToken_normalized:
  assumes "\<forall>t \<in> set (tokens st). normalized_ok lc t"
  shows "\<forall>t \<in> set (tokens (appendToken lc e st)). normalized_ok lc t"
  using assms by (cases "token st") (auto simp: appendToken_def normalized_ok_def)

lemma processChar_normalized:
  assumes "\<forall>t \<in> set (tokens st). normalized_ok lc t" and "fromCodePoint c = Some chr"
  shows "\<forall>t \<in> set (tokens (processChar lc c chr i st)). normalized_ok lc t"
proof (cases "\<not> isBreakingChar c \<and> 0xFFFF < c")
  case True
  have "normalized_ok lc \<lparr>tok_start = int i, tok_end = int i + (int (length chr) - 1),
      tok_text = chr, tok_normalized = chr\<rparr>"
    using True assms(2) by (auto simp: normalized_ok_def)
  with True appendToken_normalized [OF assms(1), of "int i - 1"] show ?thesis
    by (auto simp: processChar_def Let_def)
next
  case False
  with appendToken_normalized [OF assms(1), of "int i - 1"] assms(1) show ?thesis
    by (cases "token st") (auto simp: processChar_def)
qed

lemma scanText_normalized:
  assumes "\<forall>t \<in> set (tokens st). normalized_ok lc t" and "scanText lc s i st = Inr st'"
  shows "\<forall>t \<in> set (tokens st'). normalized_ok lc t"
  using assms
proof (induction "length s - i" arbitrary: i st rule: less_induct)
  case less
  show ?case
  proof (cases "i < length s")
    case True
    from scanText_step [OF True, of lc st] obtain c chr where
      c: "fromCodePoint c = Some chr" and
      l: "0 < length chr" "i + length chr \<le> length s" and
      e: "scanText lc s i st = scanText lc s (i + length chr) (processChar lc c chr i st)"
      by metis
    have d: "length s - (i + length chr) < length s - i" using l True by arith
    have ok: "\<forall>t \<in> set (tokens (processChar lc c chr i st)). normalized_ok lc t"
      using less.prems(1) c by (rule processChar_normalized)
    from less.hyps [OF d ok] e less.prems(2) show ?thesis by simp
  next
    case False
    with less.prems show ?thesis by (simp add: scanText_done)
  qed
qed

lemma defaultTokenizer_normalized:
  "\<exists>ts. defaultTokenizer toLowerCase txt locale = Inr ts \<and>
        (\<forall>t \<in> set ts. normalized_ok toLowerCase t)"
proof -
  define s where "s = (case txt of None \<Rightarrow> [] | Some t \<Rightarrow> t)"
  obtain st where st: "scanText toLowerCase s 0 \<lparr>tokens = [], token = None\<rparr> = Inr st"
    using scanText_total by blast
  have "\<forall>t \<in> set (tokens st). normalized_ok toLowerCase t"
    using scanText_normalized [OF _ st] by simp
  then have "\<forall>t \<in> set (tokens (appendToken toLowerCase (int (length s) - 1) st)).
      normalized_ok toLowerCase t"
    by (rule appendToken_normalized)
  moreover have "defaultTokenizer toLowerCase txt locale =
      Inr (tokens (appendToken toLowerCase (int (length s) - 1) st))"
    using st by (simp add: defaultTokenizer_def s_def Let_def)
  ultimately show ?thesis by blast
qed

section \<open>The tokenizer: claims\<close>

text \<open>
  C10: \<open>defaultTokenizer\<close> ignores its \<open>locale\<close> parameter: for every input string and
  any two locale arguments, an omitted one included, the two calls return the same
  result.
\<close>

theorem defaultTokenizer_ignores_locale:
  "defaultTokenizer toLowerCase txt locale1 = defaultTokenizer toLowerCase txt locale2"
  by (simp add: defaultTokenizer_def)

text \<open>
  C7: the \<open>normalized\<close> field of every token is the lowercase form of its \<open>text\<close>, also
  for a token of the supplementary-plane branch. The code does not do this: that branch
  pushes \<open>normalized: chr\<close> and never calls \<open>toLowerCase\<close>. On the one-character string
  U+10400 (DESERET CAPITAL LETTER LONG I, the code units D801 DC00), whose lowercase form
  is U+10428 (D801 DC28), the token's \<open>normalized\<close> is the unchanged capital letter,
  whatever \<open>toLowerCase\<close> is. Every other token is lowercased
  (\<open>defaultTokenizer_normalized\<close>).
\<close>

theorem defaultTokenizer_supplementary_normalized:
  "defaultTokenizer toLowerCase (Some [0xD801, 0xDC00]) locale =
     Inr [\<lparr>tok_start = 0, tok_end = 1, tok_text = [0xD801, 0xDC00],
           tok_normalized = [0xD801, 0xDC00]\<rparr>]"
  by (simp add: Let_def defaultTokenizer_def scanText.simps codePointOrCharCode_def
      codePointAt_def fromCodePoint_def processChar_def isBreakingChar_def isBetween_def
      appendToken_def)

text \<open>
  C8: when \<open>defaultTokenizer\<close> meets a code point above 0xFFFF (the surrogate pair
  \<open>hi, lo\<close>), it closes and emits the open token, if any, and emits the code point as a
  token of its own, whatever stands before and after it. The tokens of
  \<open>pre @ [hi, lo] @ post\<close> are the tokens of \<open>pre\<close> alone, then the token of the pair at
  the offsets \<open>length pre\<close> and \<open>length pre + 1\<close>, then the tokens of \<open>post\<close> alone moved
  by \<open>length pre + 2\<close>. With \<open>pre\<close> and \<open>post\<close> empty, a string that is a single emoji
  yields that emoji as its only token.
\<close>

theorem defaultTokenizer_supplementary_isolated:
  assumes "codePointAt [hi, lo] 0 = Some c" and "0xFFFF < c"
  shows "\<exists>before after.
           defaultTokenizer toLowerCase (Some pre) locale = Inr before \<and>
           defaultTokenizer toLowerCase (Some post) locale = Inr after \<and>
           defaultTokenizer toLowerCase (Some (pre @ [hi, lo] @ post)) locale =
             Inr (before @
                  [\<lparr>tok_start = int (length pre), tok_end = int (length pre) + 1,
                    tok_text = [hi, lo], tok_normalized = [hi, lo]\<rparr>] @
                  map (shiftToken (int (length pre) + 2)) after)"
proof -
  let ?lc = toLowerCase
  let ?s = "pre @ hi # lo # post"
  let ?n = "length pre"
  let ?init = "\<lparr>tokens = [], token = None\<rparr>"
  from supplementary_pair [OF assms]
  have hi: "0xD800 \<le> unat hi" "unat hi \<le> 0xDBFF" and lo: "0xDC00 \<le> unat lo" "unat lo \<le> 0xDFFF"
    by simp_all
  obtain st1 where st1: "scanText ?lc pre 0 ?init = Inr st1"
    using scanText_total by blast
  obtain st2 where st2: "scanText ?lc post 0 ?init = Inr st2"
    using scanText_total by blast
  define before where "before = tokens (appendToken ?lc (int ?n - 1) st1)"
  define after where "after = tokens (appendToken ?lc (int (length post) - 1) st2)"
  define emoji where "emoji = \<lparr>tok_start = int ?n, tok_end = int ?n + 1,
    tok_text = [hi, lo], tok_normalized = [hi, lo]\<rparr>"
  have b: "defaultTokenizer ?lc (Some pre) locale = Inr before"
    using st1 by (simp add: defaultTokenizer_def before_def Let_def)
  have a: "defaultTokenizer ?lc (Some post) locale = Inr after"
    using st2 by (simp add: defaultTokenizer_def after_def Let_def)
  \<comment> \<open>the prefix is scanned as it is on its own\<close>
  have nl: "\<not> (0xDC00 \<le> unat hi \<and> unat hi \<le> 0xDFFF)" using hi by simp
  have p1: "scanText ?lc ?s 0 ?init = scanText ?lc ?s ?n st1"
    using scanText_prefix [OF nl, of 0 pre ?lc "lo # post" ?init] st1 by simp
  \<comment> \<open>the step at the pair\<close>
  have at: "?n < length ?s" by simp
  have n0: "?s ! ?n = hi" and n1: "?s ! (?n + 1) = lo"
    by (simp_all add: nth_append)
  from codePointOrCharCode_cases [OF at] hi lo n0 n1
  obtain c' where c': "codePointOrCharCode ?s ?n = Some c'" "0xFFFF < c'"
    "fromCodePoint c' = Some [hi, lo]"
    by auto
  have tn: "token (appendToken ?lc (int ?n - 1) st1) = None"
    by (cases "token st1") (simp_all add: appendToken_def)
  have pc: "processChar ?lc c' [hi, lo] ?n st1 =
              shiftState (before @ [emoji]) (int (?n + 2)) ?init"
    using c'(2) supplementary_not_breaking [OF c'(2)] tn
    by (simp add: processChar_def Let_def shiftState_def before_def emoji_def)
  have p2: "scanText ?lc ?s ?n st1 =
              scanText ?lc ?s (?n + 2) (shiftState (before @ [emoji]) (int (?n + 2)) ?init)"
    using at c' pc by (subst scanText.simps) simp
  \<comment> \<open>the suffix is scanned as it is on its own, its offsets shifted\<close>
  have "scanText ?lc ((pre @ [hi, lo]) @ post) (length (pre @ [hi, lo]) + 0)
          (shiftState (before @ [emoji]) (int (length (pre @ [hi, lo]))) ?init) =
        Inr (shiftState (before @ [emoji]) (int (length (pre @ [hi, lo]))) st2)"
    unfolding scanText_shift using st2 by simp
  then have p3: "scanText ?lc ?s (?n + 2)
          (shiftState (before @ [emoji]) (int (?n + 2)) ?init) =
        Inr (shiftState (before @ [emoji]) (int (?n + 2)) st2)"
    by simp
  have fin: "appendToken ?lc (int (length ?s) - 1)
               (shiftState (before @ [emoji]) (int (?n + 2)) st2) =
             shiftState (before @ [emoji]) (int (?n + 2))
               (appendToken ?lc (int (length post) - 1) st2)"
    using appendToken_shift [of ?lc "int (length post) - 1" "int (?n + 2)" "before @ [emoji]" st2]
    by (simp add: algebra_simps)
  have "defaultTokenizer ?lc (Some (pre @ [hi, lo] @ post)) locale =
          Inr (before @ [emoji] @ map (shiftToken (int ?n + 2)) after)"
    using p1 p2 p3 fin
    by (simp add: defaultTokenizer_def Let_def shiftState_def after_def add.commute)
  with a b show ?thesis unfolding emoji_def by blast
qed

text \<open>An instance: \<open>Hi\<close>, the emoji U+1F600 and \<open>A\<close> with nothing between them.\<close>

theorem defaultTokenizer_supplementary_isolated_witness:
  "codePointAt [0xD83D, 0xDE00] 0 = Some 0x1F600 \<and> (0xFFFF :: nat) < 0x1F600 \<and>
   defaultTokenizer toLowerCaseASCII (Some [0x48, 0x69]) None =
     Inr [\<lparr>tok_start = 0, tok_end = 1, tok_text = [0x48, 0x69], tok_normalized = [0x68, 0x69]\<rparr>] \<and>
   defaultTokenizer toLowerCaseASCII (Some [0x41]) None =
     Inr [\<lparr>tok_start = 0, tok_end = 0, tok_text = [0x41], tok_normalized = [0x61]\<rparr>] \<and>
   defaultTokenizer toLowerCaseASCII (Some [0x48, 0x69, 0xD83D, 0xDE00, 0x41]) None =
     Inr [\<lparr>tok_start = 0, tok_end = 1, tok_text = [0x48, 0x69], tok_normalized = [0x68, 0x69]\<rparr>,
          \<lparr>tok_start = 2, tok_end = 3, tok_text = [0xD83D, 0xDE00],
            tok_normalized = [0xD83D, 0xDE00]\<rparr>,
          \<lparr>tok_start = 4, tok_end = 4, tok_text = [0x41], tok_normalized = [0x61]\<rparr>]"
proof -
  have c: "codePointAt [0xD83D, 0xDE00] 0 = Some 0x1F600"
    by (simp add: codePointAt_def)
  have g: "(0xFFFF :: nat) < 0x1F600" by simp
  have b: "defaultTokenizer toLowerCaseASCII (Some [0x48, 0x69]) None =
     Inr [\<lparr>tok_start = 0, tok_end = 1, tok_text = [0x48, 0x69], tok_normalized = [0x68, 0x69]\<rparr>]"
    by (simp add: Let_def defaultTokenizer_def scanText.simps codePointOrCharCode_def
        codePointAt_def fromCodePoint_def processChar_def isBreakingChar_def isBetween_def
        appendToken_def toLowerCaseASCII_def)
  have a: "defaultTokenizer toLowerCaseASCII (Some [0x41]) None =
     Inr [\<lparr>tok_start = 0, tok_end = 0, tok_text = [0x41], tok_normalized = [0x61]\<rparr>]"
    by (simp add: Let_def defaultTokenizer_def scanText.simps codePointOrCharCode_def
        codePointAt_def fromCodePoint_def processChar_def isBreakingChar_def isBetween_def
        appendToken_def toLowerCaseASCII_def)
  from defaultTokenizer_supplementary_isolated [OF c g, of toLowerCaseASCII "[0x48, 0x69]" None "[0x41]"]
  show ?thesis
    unfolding a b using c by (simp add: shiftToken_def)
qed

text \<open>
  C9: every token produced by \<open>defaultTokenizer\<close> has \<open>start \<le> end\<close>, the tokens are listed
  in non-decreasing order of \<open>start\<close>, and no two tokens overlap: a token ends strictly
  before every later token starts. The call always returns a token list.
\<close>

theorem defaultTokenizer_tokens_ordered:
  "\<exists>ts. defaultTokenizer toLowerCase txt locale = Inr ts \<and>
        (\<forall>t \<in> set ts. tok_start t \<le> tok_end t) \<and>
        sorted (map tok_start ts) \<and>
        (\<forall>i j. i < j \<and> j < length ts \<longrightarrow> tok_end (ts ! i) < tok_start (ts ! j))"
proof -
  obtain ts where ts: "defaultTokenizer toLowerCase txt locale = Inr ts" "ordered_tokens ts"
    using defaultTokenizer_ordered by blast
  from ordered_tokens_nth [OF ts(2)] ts(1) show ?thesis by blast
qed

text \<open>An instance: \<open>Hi\<close>, a space, the emoji U+1F600, \<open>A\<close>, a comma and \<open>b\<close>.\<close>

theorem defaultTokenizer_tokens_ordered_witness:
  "defaultTokenizer toLowerCaseASCII (Some [0x48, 0x69, 0x20, 0xD83D, 0xDE00, 0x41, 0x2C, 0x62]) None =
     Inr [\<lparr>tok_start = 0, tok_end = 1, tok_text = [0x48, 0x69], tok_normalized = [0x68, 0x69]\<rparr>,
          \<lparr>tok_start = 3, tok_end = 4, tok_text = [0xD83D, 0xDE00],
            tok_normalized = [0xD83D, 0xDE00]\<rparr>,
          \<lparr>tok_start = 5, tok_end = 5, tok_text = [0x41], tok_normalized = [0x61]\<rparr>,
          \<lparr>tok_start = 7, tok_end = 7, tok_text = [0x62], tok_normalized = [0x62]\<rparr>] \<and>
   sorted [0, 3, 5, 7 :: int] \<and> (1 :: int) < 3 \<and> (4 :: int) < 5 \<and> (5 :: int) < 7"
  using defaultTokenizer_tokens_ordered
    [of toLowerCaseASCII "Some [0x48, 0x69, 0x20, 0xD83D, 0xDE00, 0x41, 0x2C, 0x62]" None]
  by (simp add: Let_def defaultTokenizer_def scanText.simps codePointOrCharCode_def
      codePointAt_def fromCodePoint_def processChar_def isBreakingChar_def isBetween_def
      appendToken_def toLowerCaseASCII_def)

section \<open>The recognizer: lemmas\<close>

text \<open>The source's \<open>matchChoiceByIndex\<close> pushes what the specification says.\<close>

lemma matchChoiceByIndex_spec:
  "matchChoiceByIndex p list matched m =
     matched @ (case fallbackResult_spec p list m of None \<Rightarrow> [] | Some r \<Rightarrow> [r])"
  by (simp add: matchChoiceByIndex_def matchChoiceByIndex_try_def fallbackResult_spec_def Let_def
      split: option.splits)

lemma foldl_matchChoiceByIndex:
  "foldl (matchChoiceByIndex p list) matched ms =
     matched @ List.map_filter (fallbackResult_spec p list) ms"
proof (induction ms arbitrary: matched)
  case Nil
  show ?case by simp
next
  case (Cons m ms)
  have "foldl (matchChoiceByIndex p list) matched (m # ms) =
          foldl (matchChoiceByIndex p list) (matchChoiceByIndex p list matched m) ms"
    by simp
  also have "\<dots> = matchChoiceByIndex p list matched m @
          List.map_filter (fallbackResult_spec p list) ms"
    by (rule Cons.IH)
  also have "\<dots> = matched @ List.map_filter (fallbackResult_spec p list) (m # ms)"
    unfolding matchChoiceByIndex_spec by (simp split: option.splits)
  finally show ?case .
qed

lemma malformed_iff: "malformed p list m \<longleftrightarrow> fallbackResult_spec p list m = None"
  by (auto simp: malformed_def fallbackResult_spec_def split: option.splits)

lemma fallbackResult_spec_Some:
  "fallbackResult_spec p list m = Some r \<longleftrightarrow>
     (\<exists>resolution parsed.
        mr_resolution m = Some resolution \<and> p (res_value resolution) = Some parsed \<and>
        0 \<le> parsed - 1 \<and> parsed - 1 < int (length list) \<and>
        r = \<lparr>mr_text = mr_text m, mr_start = mr_start m, mr_end = mr_end m,
              mr_typeName = str ''choice'',
              mr_resolution =
                \<lparr>fc_value = choice_value (list ! nat (parsed - 1)),
                 fc_index = parsed - 1, fc_score = 1\<rparr>\<rparr>)"
proof (cases "mr_resolution m")
  case None
  then show ?thesis by (simp add: fallbackResult_spec_def)
next
  case (Some resolution)
  show ?thesis
  proof (cases "p (res_value resolution)")
    case None
    with Some show ?thesis by (simp add: fallbackResult_spec_def)
  next
    case parsed: (Some parsed)
    with Some show ?thesis by (auto simp: fallbackResult_spec_def)
  qed
qed

lemma map_filter_drop:
  "f x = None \<Longrightarrow> List.map_filter f (xs @ x # ys) = List.map_filter f (xs @ ys)"
  by (simp add: List.map_filter_def)

lemma set_map_filter: "set (List.map_filter f xs) = {y. \<exists>x \<in> set xs. f x = Some y}"
  by (induction xs) (auto split: option.splits)

text \<open>Every way in which a call of \<open>recognizeChoices\<close> ends, with its log.\<close>

lemma recognizeChoices_calls_cases:
  "recognizeChoices_calls env u cs opts =
     (case findChoices env u (normalizeChoices cs) opts of
        Inl err \<Rightarrow> (Inl err, [FindChoices])
      | Inr found \<Rightarrow>
          if found \<noteq> [] then (Inr found, [FindChoices])
          else
            (case recognizeOrdinal env u (optionsLocale opts) of
               Inl err \<Rightarrow> (Inl err, [FindChoices, RecognizeOrdinal])
             | Inr ords \<Rightarrow>
                 if ords \<noteq> [] then
                   (Inr (sort_key mr_start
                      (List.map_filter (fallbackResult_spec (parseInt env) (normalizeChoices cs)) ords)),
                    [FindChoices, RecognizeOrdinal])
                 else
                   (case recognizeNumber env u (optionsLocale opts) of
                      Inl err \<Rightarrow> (Inl err, [FindChoices, RecognizeOrdinal, RecognizeNumber])
                    | Inr nums \<Rightarrow>
                        (Inr (sort_key mr_start
                           (List.map_filter (fallbackResult_spec (parseInt env) (normalizeChoices cs)) nums)),
                         [FindChoices, RecognizeOrdinal, RecognizeNumber]))))"
  by (simp add: recognizeChoices_calls_def invoke_def Let_def foldl_matchChoiceByIndex
      split: sum.splits)

lemma recognizeChoices_calls_name:
  assumes "findChoices env u (normalizeChoices cs) opts = Inr found" and "found \<noteq> []"
  shows "recognizeChoices_calls env u cs opts = (Inr found, [FindChoices])"
  using assms by (simp add: recognizeChoices_calls_def invoke_def Let_def)

lemma recognizeChoices_calls_ordinal:
  assumes "findChoices env u (normalizeChoices cs) opts = Inr []"
    and "recognizeOrdinal env u (optionsLocale opts) = Inr ords" and "ords \<noteq> []"
  shows "recognizeChoices_calls env u cs opts =
     (Inr (sort_key mr_start
        (List.map_filter (fallbackResult_spec (parseInt env) (normalizeChoices cs)) ords)),
      [FindChoices, RecognizeOrdinal])"
  using assms
  by (simp add: recognizeChoices_calls_def invoke_def Let_def foldl_matchChoiceByIndex)

lemma recognizeChoices_calls_number:
  assumes "findChoices env u (normalizeChoices cs) opts = Inr []"
    and "recognizeOrdinal env u (optionsLocale opts) = Inr []"
    and "recognizeNumber env u (optionsLocale opts) = Inr nums"
  shows "recognizeChoices_calls env u cs opts =
     (Inr (sort_key mr_start
        (List.map_filter (fallbackResult_spec (parseInt env) (normalizeChoices cs)) nums)),
      [FindChoices, RecognizeOrdinal, RecognizeNumber])"
  using assms
  by (simp add: recognizeChoices_calls_def invoke_def Let_def foldl_matchChoiceByIndex)

lemma recognizeChoices_calls_fallback:
  assumes "findChoices env u (normalizeChoices cs) opts = Inr []"
    and "recognizeOrdinal env u (optionsLocale opts) = Inr ms \<and> ms \<noteq> [] \<or>
         recognizeOrdinal env u (optionsLocale opts) = Inr [] \<and>
         recognizeNumber env u (optionsLocale opts) = Inr ms"
  shows "recognizeChoices env u cs opts =
     Inr (sort_key mr_start
        (List.map_filter (fallbackResult_spec (parseInt env) (normalizeChoices cs)) ms))"
  using assms recognizeChoices_calls_ordinal [of env u cs opts ms]
    recognizeChoices_calls_number [of env u cs opts ms]
  by (auto simp: recognizeChoices_def)

lemma recognizeChoices_fallback_source:
  assumes "findChoices env utterance (normalizeChoices choices) options = Inr []"
    and "recognizeChoices env utterance choices options = Inr rs"
  shows "\<exists>ms. (recognizeOrdinal env utterance (optionsLocale options) = Inr ms \<and> ms \<noteq> [] \<and>
                RecognizeNumber \<notin> set (snd (recognizeChoices_calls env utterance choices options)) \<or>
               recognizeOrdinal env utterance (optionsLocale options) = Inr [] \<and>
                recognizeNumber env utterance (optionsLocale options) = Inr ms) \<and>
              rs = sort_key mr_start
                (foldl (matchChoiceByIndex (parseInt env) (normalizeChoices choices)) [] ms)"
proof -
  let ?P = "\<lambda>ms. (recognizeOrdinal env utterance (optionsLocale options) = Inr ms \<and> ms \<noteq> [] \<and>
                    RecognizeNumber \<notin> set (snd (recognizeChoices_calls env utterance choices options)) \<or>
                   recognizeOrdinal env utterance (optionsLocale options) = Inr [] \<and>
                    recognizeNumber env utterance (optionsLocale options) = Inr ms) \<and>
                  rs = sort_key mr_start
                    (foldl (matchChoiceByIndex (parseInt env) (normalizeChoices choices)) [] ms)"
  note f = assms(1)
  from assms(2) have r: "fst (recognizeChoices_calls env utterance choices options) = Inr rs"
    by (simp add: recognizeChoices_def)
  show "\<exists>ms. ?P ms"
  proof (cases "recognizeOrdinal env utterance (optionsLocale options)")
    case (Inl err)
    with f r show ?thesis by (simp add: recognizeChoices_calls_cases)
  next
    case (Inr ords)
    show ?thesis
    proof (cases "ords = []")
      case False
      with f r Inr have "?P ords"
        by (simp add: recognizeChoices_calls_cases foldl_matchChoiceByIndex)
      then show ?thesis ..
    next
      case True
      show ?thesis
      proof (cases "recognizeNumber env utterance (optionsLocale options)")
        case (Inl err)
        with f r Inr True show ?thesis by (simp add: recognizeChoices_calls_cases)
      next
        case nums: (Inr nums)
        with f r Inr True have "?P nums"
          by (simp add: recognizeChoices_calls_cases foldl_matchChoiceByIndex)
        then show ?thesis ..
      qed
    qed
  qed
qed

text \<open>The normalized list keeps the entries that are not falsy, in their order.\<close>

lemma normalizeChoices_map_filter:
  "normalizeChoices (Some cs) = List.map_filter normalizeChoice cs"
  by (induction cs) (auto simp: normalizeChoices_def)

lemma normalizeChoice_None: "normalizeChoice c = None \<longleftrightarrow> c = Falsy"
  by (cases c) (simp_all add: normalizeChoice_def)

lemma length_normalizeChoices:
  "length (normalizeChoices (Some cs)) = length cs - length (filter (\<lambda>c. c = Falsy) cs)"
proof -
  have "length (normalizeChoices (Some cs)) = length (filter (\<lambda>c. c \<noteq> Falsy) cs)"
    by (simp add: normalizeChoices_map_filter List.map_filter_def normalizeChoice_None)
  also have "\<dots> = length cs - length (filter (\<lambda>c. c = Falsy) cs)"
    using sum_length_filter_compl [of "\<lambda>c. c = Falsy" cs] by simp
  finally show ?thesis .
qed

lemma normalizeChoices_position:
  assumes "j < length cs" and "cs ! j \<noteq> Falsy"
  shows "j - length (filter (\<lambda>c. c = Falsy) (take j cs)) < length (normalizeChoices (Some cs)) \<and>
         normalizeChoice (cs ! j) =
           Some (normalizeChoices (Some cs) ! (j - length (filter (\<lambda>c. c = Falsy) (take j cs))))"
proof -
  let ?k = "j - length (filter (\<lambda>c. c = Falsy) (take j cs))"
  obtain c where c: "normalizeChoice (cs ! j) = Some c"
    using assms(2) normalizeChoice_None [of "cs ! j"] by (cases "normalizeChoice (cs ! j)") auto
  have split: "cs = take j cs @ cs ! j # drop (Suc j) cs"
    using assms(1) by (rule id_take_nth_drop)
  have "normalizeChoices (Some cs) =
          normalizeChoices (Some (take j cs)) @ c # normalizeChoices (Some (drop (Suc j) cs))"
    by (subst split) (simp add: normalizeChoices_map_filter List.map_filter_def c)
  moreover have "length (normalizeChoices (Some (take j cs))) = ?k"
    using assms(1) by (simp add: length_normalizeChoices)
  ultimately have "normalizeChoices (Some cs) ! ?k = c \<and> ?k < length (normalizeChoices (Some cs))"
    by (metis add_Suc_right length_Cons length_append less_add_Suc1 nth_append_length)
  with c show ?thesis by simp
qed

text \<open>The definitions that the concrete examples unfold.\<close>

lemmas stub_simps =
  recognizeChoices_def recognizeChoices_calls_def stubEnv_def invoke_def normalizeChoices_def
  normalizeChoice_def numberMatch_def foundChoice_def colours_def matchChoiceByIndex_def
  matchChoiceByIndex_try_def parseIntDecimal_def str_def optionsLocale_def Let_def

section \<open>The recognizer: claims\<close>

text \<open>
  C1: \<open>recognizeChoices\<close> uses exactly one matching strategy. If the name match of
  \<open>findChoices\<close> yields at least one result, neither the ordinal nor the number recognizer
  is invoked (the log holds the call of \<open>findChoices\<close> alone) and the name-match results
  are returned unmodified. The output is never a mixture: if the name match is empty, every
  result comes from one list of matches, the ordinal recognizer's if it is not empty (the
  number recognizer is then not invoked), and the number recognizer's otherwise.
\<close>

theorem recognizeChoices_single_strategy:
  assumes "findChoices env utterance (normalizeChoices choices) options = Inr found"
  shows "(found \<noteq> [] \<longrightarrow>
            recognizeChoices_calls env utterance choices options = (Inr found, [FindChoices])) \<and>
         (\<forall>rs. found = [] \<and> recognizeChoices env utterance choices options = Inr rs \<longrightarrow>
            (\<exists>ms. (recognizeOrdinal env utterance (optionsLocale options) = Inr ms \<and> ms \<noteq> [] \<and>
                    RecognizeNumber \<notin> set (snd (recognizeChoices_calls env utterance choices options)) \<or>
                   recognizeOrdinal env utterance (optionsLocale options) = Inr [] \<and>
                    recognizeNumber env utterance (optionsLocale options) = Inr ms) \<and>
                  rs = sort_key mr_start
                    (foldl (matchChoiceByIndex (parseInt env) (normalizeChoices choices)) [] ms)))"
proof (intro conjI impI allI)
  assume "found \<noteq> []"
  with assms show "recognizeChoices_calls env utterance choices options = (Inr found, [FindChoices])"
    by (rule recognizeChoices_calls_name)
next
  fix rs
  assume a: "found = [] \<and> recognizeChoices env utterance choices options = Inr rs"
  with assms have "findChoices env utterance (normalizeChoices choices) options = Inr []"
    by simp
  from recognizeChoices_fallback_source [OF this] a
  show "\<exists>ms. (recognizeOrdinal env utterance (optionsLocale options) = Inr ms \<and> ms \<noteq> [] \<and>
                    RecognizeNumber \<notin> set (snd (recognizeChoices_calls env utterance choices options)) \<or>
                   recognizeOrdinal env utterance (optionsLocale options) = Inr [] \<and>
                    recognizeNumber env utterance (optionsLocale options) = Inr ms) \<and>
                  rs = sort_key mr_start
                    (foldl (matchChoiceByIndex (parseInt env) (normalizeChoices choices)) [] ms)"
    by blast
qed

text \<open>
  Two instances. The name match finds \<open>green\<close>: the ordinal and the number that the two
  other recognizers would return are never asked for. The name match finds nothing and
  the ordinal recognizer finds \<open>first\<close>: the number 3 that the number recognizer would
  return is not part of the result.
\<close>

theorem recognizeChoices_single_strategy_witness:
  "findChoices (stubEnv [foundChoice (str ''green'') 4 8 (str ''green'') 1]
       [numberMatch (str ''first'') 10 14 (str ''1'')] [numberMatch (str ''3'') 16 16 (str ''3'')])
     (str ''the green first 3'') (normalizeChoices (Some colours)) None =
     Inr [foundChoice (str ''green'') 4 8 (str ''green'') 1] \<and>
   recognizeChoices_calls (stubEnv [foundChoice (str ''green'') 4 8 (str ''green'') 1]
       [numberMatch (str ''first'') 10 14 (str ''1'')] [numberMatch (str ''3'') 16 16 (str ''3'')])
     (str ''the green first 3'') (Some colours) None =
     (Inr [foundChoice (str ''green'') 4 8 (str ''green'') 1], [FindChoices]) \<and>
   recognizeChoices_calls (stubEnv []
       [numberMatch (str ''first'') 4 8 (str ''1'')] [numberMatch (str ''3'') 10 10 (str ''3'')])
     (str ''the first 3'') (Some colours) None =
     (Inr [foundChoice (str ''first'') 4 8 (str ''red'') 0], [FindChoices, RecognizeOrdinal])"
proof -
  let ?env = "stubEnv [foundChoice (str ''green'') 4 8 (str ''green'') 1]
       [numberMatch (str ''first'') 10 14 (str ''1'')] [numberMatch (str ''3'') 16 16 (str ''3'')]"
  have f: "findChoices ?env (str ''the green first 3'') (normalizeChoices (Some colours)) None =
     Inr [foundChoice (str ''green'') 4 8 (str ''green'') 1]"
    by (simp add: stubEnv_def)
  have g: "recognizeChoices_calls (stubEnv []
       [numberMatch (str ''first'') 4 8 (str ''1'')] [numberMatch (str ''3'') 10 10 (str ''3'')])
     (str ''the first 3'') (Some colours) None =
     (Inr [foundChoice (str ''first'') 4 8 (str ''red'') 0], [FindChoices, RecognizeOrdinal])"
    by (simp add: stub_simps)
  from recognizeChoices_single_strategy [OF f] f g show ?thesis by simp
qed

text \<open>
  C2: the sequence returned by \<open>recognizeChoices\<close> is sorted by ascending \<open>start\<close>. The
  results of the ordinal or numeric fallback are sorted by \<open>start\<close> explicitly; the results
  of the name match are returned as \<open>findChoices\<close> gave them, without another sort, and
  are sorted because \<open>findChoices\<close> returns them so (\<open>findChoices_sorted\<close>, the guarantee
  of section 4.2 of the specification).
\<close>

theorem recognizeChoices_sorted:
  assumes "recognizeChoices env utterance choices options = Inr rs"
    and "findChoices_sorted env utterance (normalizeChoices choices) options"
  shows "sorted (map mr_start rs) \<and>
         (\<forall>found. findChoices env utterance (normalizeChoices choices) options = Inr found \<and>
              found \<noteq> [] \<longrightarrow> rs = found) \<and>
         (findChoices env utterance (normalizeChoices choices) options = Inr [] \<longrightarrow>
            (\<exists>ms. rs = sort_key mr_start
               (foldl (matchChoiceByIndex (parseInt env) (normalizeChoices choices)) [] ms)))"
proof -
  from assms(1) have r: "fst (recognizeChoices_calls env utterance choices options) = Inr rs"
    by (simp add: recognizeChoices_def)
  obtain found where f: "findChoices env utterance (normalizeChoices choices) options = Inr found"
    using r by (cases "findChoices env utterance (normalizeChoices choices) options")
      (simp_all add: recognizeChoices_calls_cases)
  show ?thesis
  proof (cases "found = []")
    case False
    with f r have e: "rs = found" by (simp add: recognizeChoices_calls_cases)
    from assms(2) f have "sorted (map mr_start found)" by (simp add: findChoices_sorted_def)
    with e f False show ?thesis by simp
  next
    case True
    from recognizeChoices_fallback_source [of env utterance choices options rs] f True assms(1)
    obtain ms where ms: "rs = sort_key mr_start
        (foldl (matchChoiceByIndex (parseInt env) (normalizeChoices choices)) [] ms)"
      by blast
    then have "sorted (map mr_start rs)" by simp
    with ms f True show ?thesis by auto
  qed
qed

text \<open>
  Two instances. The name match returns \<open>red\<close> and \<open>blue\<close> in the order of their
  positions, and they are returned as they are. The name match finds nothing and the
  ordinal recognizer returns \<open>third\<close> before \<open>first\<close>: the results are in the order of
  their positions in the utterance.
\<close>

theorem recognizeChoices_sorted_witness:
  "recognizeChoices
     (stubEnv [foundChoice (str ''red'') 0 2 (str ''red'') 0, foundChoice (str ''blue'') 7 10 (str ''blue'') 2]
        [] [])
     (str ''red or blue'') (Some colours) None =
     Inr [foundChoice (str ''red'') 0 2 (str ''red'') 0, foundChoice (str ''blue'') 7 10 (str ''blue'') 2] \<and>
   findChoices_sorted
     (stubEnv [foundChoice (str ''red'') 0 2 (str ''red'') 0, foundChoice (str ''blue'') 7 10 (str ''blue'') 2]
        [] [])
     (str ''red or blue'') (normalizeChoices (Some colours)) None \<and>
   recognizeChoices
     (stubEnv [] [numberMatch (str ''third'') 6 10 (str ''3''), numberMatch (str ''first'') 0 4 (str ''1'')] [])
     (str ''first third'') (Some colours) None =
     Inr [foundChoice (str ''first'') 0 4 (str ''red'') 0, foundChoice (str ''third'') 6 10 (str ''blue'') 2] \<and>
   findChoices_sorted
     (stubEnv [] [numberMatch (str ''third'') 6 10 (str ''3''), numberMatch (str ''first'') 0 4 (str ''1'')] [])
     (str ''first third'') (normalizeChoices (Some colours)) None \<and>
   sorted (map mr_start
     [foundChoice (str ''red'') 0 2 (str ''red'') 0, foundChoice (str ''blue'') 7 10 (str ''blue'') 2]) \<and>
   sorted (map mr_start
     [foundChoice (str ''first'') 0 4 (str ''red'') 0, foundChoice (str ''third'') 6 10 (str ''blue'') 2])"
proof -
  let ?name = "stubEnv [foundChoice (str ''red'') 0 2 (str ''red'') 0,
    foundChoice (str ''blue'') 7 10 (str ''blue'') 2] [] [] :: unit Env"
  let ?env = "stubEnv [] [numberMatch (str ''third'') 6 10 (str ''3''),
    numberMatch (str ''first'') 0 4 (str ''1'')] [] :: unit Env"
  have n: "recognizeChoices ?name (str ''red or blue'') (Some colours) None =
     Inr [foundChoice (str ''red'') 0 2 (str ''red'') 0, foundChoice (str ''blue'') 7 10 (str ''blue'') 2]"
    by (simp add: stub_simps)
  have ns: "findChoices_sorted ?name (str ''red or blue'') (normalizeChoices (Some colours)) None"
    by (simp add: findChoices_sorted_def stubEnv_def foundChoice_def)
  have r: "recognizeChoices ?env (str ''first third'') (Some colours) None =
     Inr [foundChoice (str ''first'') 0 4 (str ''red'') 0, foundChoice (str ''third'') 6 10 (str ''blue'') 2]"
    by (simp add: stub_simps)
  have s: "findChoices_sorted ?env (str ''first third'') (normalizeChoices (Some colours)) None"
    by (simp add: findChoices_sorted_def stubEnv_def)
  from recognizeChoices_sorted [OF n ns] recognizeChoices_sorted [OF r s] n ns r s
  show ?thesis by blast
qed

text \<open>
  C3: in the fallback strategies, for every match \<open>m\<close> that the ordinal (or number)
  recognizer returns, the choice index is the integer-parsed resolution value minus 1,
  and a result is emitted if and only if \<open>0 \<le> index < length\<close> of the normalized choice
  list; each emitted result has the type name \<open>choice\<close>, the resolution of the indexed
  choice's value, the index and the score 1.0, and the \<open>start\<close>, \<open>end\<close> and \<open>text\<close> of the
  match. The results are those of \<open>fallbackResult_spec\<close>, sorted by \<open>start\<close>.
\<close>

theorem recognizeChoices_fallback_by_index:
  assumes "findChoices env utterance (normalizeChoices choices) options = Inr []"
    and "recognizeOrdinal env utterance (optionsLocale options) = Inr ms \<and> ms \<noteq> [] \<or>
         recognizeOrdinal env utterance (optionsLocale options) = Inr [] \<and>
         recognizeNumber env utterance (optionsLocale options) = Inr ms"
  shows "\<exists>rs. recognizeChoices env utterance choices options = Inr rs \<and>
           rs = sort_key mr_start
             (List.map_filter (fallbackResult_spec (parseInt env) (normalizeChoices choices)) ms) \<and>
           (\<forall>r. r \<in> set rs \<longleftrightarrow>
              (\<exists>m \<in> set ms. \<exists>resolution parsed.
                 mr_resolution m = Some resolution \<and>
                 parseInt env (res_value resolution) = Some parsed \<and>
                 0 \<le> parsed - 1 \<and> parsed - 1 < int (length (normalizeChoices choices)) \<and>
                 r = \<lparr>mr_text = mr_text m, mr_start = mr_start m, mr_end = mr_end m,
                       mr_typeName = str ''choice'',
                       mr_resolution =
                         \<lparr>fc_value = choice_value (normalizeChoices choices ! nat (parsed - 1)),
                          fc_index = parsed - 1, fc_score = 1\<rparr>\<rparr>))"
proof -
  let ?f = "fallbackResult_spec (parseInt env) (normalizeChoices choices)"
  have e: "recognizeChoices env utterance choices options =
             Inr (sort_key mr_start (List.map_filter ?f ms))"
    using assms by (rule recognizeChoices_calls_fallback)
  have "\<And>r. r \<in> set (sort_key mr_start (List.map_filter ?f ms)) \<longleftrightarrow>
              (\<exists>m \<in> set ms. \<exists>resolution parsed.
                 mr_resolution m = Some resolution \<and>
                 parseInt env (res_value resolution) = Some parsed \<and>
                 0 \<le> parsed - 1 \<and> parsed - 1 < int (length (normalizeChoices choices)) \<and>
                 r = \<lparr>mr_text = mr_text m, mr_start = mr_start m, mr_end = mr_end m,
                       mr_typeName = str ''choice'',
                       mr_resolution =
                         \<lparr>fc_value = choice_value (normalizeChoices choices ! nat (parsed - 1)),
                          fc_index = parsed - 1, fc_score = 1\<rparr>\<rparr>)"
    by (simp add: set_map_filter fallbackResult_spec_Some)
  with e show ?thesis by blast
qed

text \<open>
  An instance: the numbers 3 and 7 against three choices; 3 selects \<open>blue\<close> at index 2
  and 7 is out of range.
\<close>

theorem recognizeChoices_fallback_by_index_witness:
  "findChoices (stubEnv [] [] [numberMatch (str ''3'') 0 0 (str ''3''), numberMatch (str ''7'') 2 2 (str ''7'')])
     (str ''3 7'') (normalizeChoices (Some colours)) None = Inr [] \<and>
   recognizeOrdinal (stubEnv [] [] [numberMatch (str ''3'') 0 0 (str ''3''), numberMatch (str ''7'') 2 2 (str ''7'')])
     (str ''3 7'') (optionsLocale None) = Inr [] \<and>
   recognizeNumber (stubEnv [] [] [numberMatch (str ''3'') 0 0 (str ''3''), numberMatch (str ''7'') 2 2 (str ''7'')])
     (str ''3 7'') (optionsLocale None) =
     Inr [numberMatch (str ''3'') 0 0 (str ''3''), numberMatch (str ''7'') 2 2 (str ''7'')] \<and>
   recognizeChoices (stubEnv [] [] [numberMatch (str ''3'') 0 0 (str ''3''), numberMatch (str ''7'') 2 2 (str ''7'')])
     (str ''3 7'') (Some colours) None =
     Inr [foundChoice (str ''3'') 0 0 (str ''blue'') 2]"
proof -
  let ?ms = "[numberMatch (str ''3'') 0 0 (str ''3''), numberMatch (str ''7'') 2 2 (str ''7'')]"
  let ?env = "stubEnv [] [] ?ms :: unit Env"
  have f: "findChoices ?env (str ''3 7'') (normalizeChoices (Some colours)) None = Inr []"
    by (simp add: stubEnv_def)
  have ordinal: "recognizeOrdinal ?env (str ''3 7'') (optionsLocale None) = Inr []"
    by (simp add: stubEnv_def)
  have number: "recognizeNumber ?env (str ''3 7'') (optionsLocale None) = Inr ?ms"
    by (simp add: stubEnv_def)
  have v: "sort_key mr_start (List.map_filter
      (fallbackResult_spec (parseInt ?env) (normalizeChoices (Some colours))) ?ms) =
      [foundChoice (str ''3'') 0 0 (str ''blue'') 2]"
    by (simp add: fallbackResult_spec_def stub_simps)
  from recognizeChoices_fallback_by_index [OF f, of ?ms] ordinal number
  have "recognizeChoices ?env (str ''3 7'') (Some colours) None =
          Inr [foundChoice (str ''3'') 0 0 (str ''blue'') 2]"
    unfolding v by blast
  with f ordinal number show ?thesis by blast
qed

text \<open>
  C4, as amended. \<open>recognizeChoices\<close> normalizes \<open>choices\<close> by turning each bare string
  into \<open>{value: string}\<close> and dropping the falsy entries. The surviving choices keep their
  order and are indexed anew: the choice at position \<open>j\<close> of the caller's list stands at
  position \<open>k\<close>, which is \<open>j\<close> minus the number of falsy entries before it, so that
  \<open>k = j\<close> exactly when no falsy entry precedes it. The index that the ordinal or numeric
  fallback uses and reports is this position \<open>k\<close> in the normalized list: a match whose
  value parses to \<open>k + 1\<close> selects this choice and reports the index \<open>k\<close>.
\<close>

theorem normalizeChoices_reindexes:
  assumes "j < length cs" and "cs ! j \<noteq> Falsy"
    and "k = j - length (filter (\<lambda>c. c = Falsy) (take j cs))"
    and "mr_resolution m = Some resolution"
    and "parseInt' (res_value resolution) = Some (int k + 1)"
  shows "\<exists>c. normalizeChoice (cs ! j) = Some c \<and>
           k < length (normalizeChoices (Some cs)) \<and> normalizeChoices (Some cs) ! k = c \<and>
           (k = j \<longleftrightarrow> Falsy \<notin> set (take j cs)) \<and>
           matchChoiceByIndex parseInt' (normalizeChoices (Some cs)) matched m =
             matched @
               [\<lparr>mr_text = mr_text m, mr_start = mr_start m, mr_end = mr_end m,
                 mr_typeName = str ''choice'',
                 mr_resolution = \<lparr>fc_value = choice_value c, fc_index = int k, fc_score = 1\<rparr>\<rparr>]"
proof -
  from normalizeChoices_position [OF assms(1,2)] assms(3)
  have k: "k < length (normalizeChoices (Some cs))"
    and c: "normalizeChoice (cs ! j) = Some (normalizeChoices (Some cs) ! k)"
    by simp_all
  have le: "length (filter (\<lambda>c. c = Falsy) (take j cs)) \<le> j"
    using length_filter_le [of "\<lambda>c. c = Falsy" "take j cs"] assms(1) by simp
  have "k = j \<longleftrightarrow> length (filter (\<lambda>c. c = Falsy) (take j cs)) = 0"
    using le assms(3) by arith
  also have "\<dots> \<longleftrightarrow> Falsy \<notin> set (take j cs)"
    by (auto simp: filter_empty_conv)
  finally have same: "k = j \<longleftrightarrow> Falsy \<notin> set (take j cs)" .
  have "matchChoiceByIndex parseInt' (normalizeChoices (Some cs)) matched m =
             matched @
               [\<lparr>mr_text = mr_text m, mr_start = mr_start m, mr_end = mr_end m,
                 mr_typeName = str ''choice'',
                 mr_resolution = \<lparr>fc_value = choice_value (normalizeChoices (Some cs) ! k),
                   fc_index = int k, fc_score = 1\<rparr>\<rparr>]"
    using k assms(4,5)
    by (simp add: matchChoiceByIndex_def matchChoiceByIndex_try_def Let_def)
  with k c same show ?thesis by blast
qed

text \<open>
  An instance: in \<open>[null, red, green]\<close> the choice \<open>green\<close> stands at position 2 and is
  selected by the ordinal 2, with the reported index 1.
\<close>

theorem normalizeChoices_reindexes_witness:
  "(2 :: nat) < length withNull \<and> withNull ! 2 \<noteq> Falsy \<and>
   (1 :: nat) = 2 - length (filter (\<lambda>c. c = Falsy) (take 2 withNull)) \<and>
   mr_resolution (numberMatch (str ''second'') 4 9 (str ''2'')) = Some \<lparr>res_value = str ''2''\<rparr> \<and>
   parseIntDecimal (res_value \<lparr>res_value = str ''2''\<rparr>) = Some (int 1 + 1) \<and>
   normalizeChoice (withNull ! 2) =
     Some \<lparr>choice_value = str ''green'', choice_action = None, choice_synonyms = None\<rparr> \<and>
   matchChoiceByIndex parseIntDecimal (normalizeChoices (Some withNull)) []
       (numberMatch (str ''second'') 4 9 (str ''2'')) =
     [foundChoice (str ''second'') 4 9 (str ''green'') 1]"
proof -
  have 1: "(2 :: nat) < length withNull" by (simp add: withNull_def)
  have 2: "withNull ! 2 \<noteq> Falsy" by (simp add: withNull_def)
  have 3: "(1 :: nat) = 2 - length (filter (\<lambda>c. c = Falsy) (take 2 withNull))"
    by (simp add: withNull_def)
  have 4: "mr_resolution (numberMatch (str ''second'') 4 9 (str ''2'')) =
      Some \<lparr>res_value = str ''2''\<rparr>"
    by (simp add: numberMatch_def)
  have 5: "parseIntDecimal (res_value \<lparr>res_value = str ''2''\<rparr>) = Some (int 1 + 1)"
    by (simp add: parseIntDecimal_def str_def)
  have 6: "normalizeChoice (withNull ! 2) =
     Some \<lparr>choice_value = str ''green'', choice_action = None, choice_synonyms = None\<rparr>"
    by (simp add: withNull_def normalizeChoice_def)
  from normalizeChoices_reindexes
    [of 2 withNull 1 "numberMatch (str ''second'') 4 9 (str ''2'')" "\<lparr>res_value = str ''2''\<rparr>"
      parseIntDecimal "[]"] 1 2 3 4 5 6
  have "matchChoiceByIndex parseIntDecimal (normalizeChoices (Some withNull)) []
       (numberMatch (str ''second'') 4 9 (str ''2'')) =
     [foundChoice (str ''second'') 4 9 (str ''green'') 1]"
    by (simp add: numberMatch_def foundChoice_def)
  with 1 2 3 4 5 6 show ?thesis by blast
qed

text \<open>
  C4 as stated, that the reported index is the position in the caller's list, fails on
  \<open>[null, red, green]\<close>: "the second" selects \<open>green\<close> and reports the index 1, while
  position 1 of the caller's list holds \<open>red\<close> and \<open>green\<close> stands at position 2.
\<close>

theorem caller_index_counterexample:
  "recognizeChoices (stubEnv [] [numberMatch (str ''second'') 4 9 (str ''2'')] [])
     (str ''the second'') (Some withNull) None =
     Inr [foundChoice (str ''second'') 4 9 (str ''green'') 1] \<and>
   withNull ! 1 = ChoiceString (str ''red'') \<and>
   withNull ! 2 = ChoiceString (str ''green'') \<and>
   \<not> (\<forall>r \<in> set [foundChoice (str ''second'') 4 9 (str ''green'') 1].
        withNull ! nat (fc_index (mr_resolution r)) = ChoiceString (fc_value (mr_resolution r)))"
  by (simp add: withNull_def stub_simps)

text \<open>
  C5: a match of a fallback recognizer whose value fails integer parsing, or whose index
  is out of range, is discarded: \<open>matchChoiceByIndex\<close> returns with \<open>matched\<close> unchanged,
  no exception reaches the caller, and the other matches are processed as if the
  malformed one were not there, so that \<open>recognizeChoices\<close> returns a sequence.
\<close>

theorem recognizeChoices_discards_malformed:
  assumes "findChoices env utterance (normalizeChoices choices) options = Inr []"
    and "recognizeOrdinal env utterance (optionsLocale options) = Inr (ms1 @ bad # ms2) \<or>
         recognizeOrdinal env utterance (optionsLocale options) = Inr [] \<and>
         recognizeNumber env utterance (optionsLocale options) = Inr (ms1 @ bad # ms2)"
    and "malformed (parseInt env) (normalizeChoices choices) bad"
  shows "matchChoiceByIndex (parseInt env) (normalizeChoices choices) matched bad = matched \<and>
         recognizeChoices env utterance choices options =
           Inr (sort_key mr_start
             (foldl (matchChoiceByIndex (parseInt env) (normalizeChoices choices)) [] (ms1 @ ms2)))"
proof -
  let ?f = "fallbackResult_spec (parseInt env) (normalizeChoices choices)"
  from assms(3) have n: "?f bad = None" by (simp add: malformed_iff)
  then have one: "matchChoiceByIndex (parseInt env) (normalizeChoices choices) matched bad = matched"
    by (simp add: matchChoiceByIndex_spec)
  from assms(2) have "recognizeOrdinal env utterance (optionsLocale options) = Inr (ms1 @ bad # ms2) \<and>
         ms1 @ bad # ms2 \<noteq> [] \<or>
         recognizeOrdinal env utterance (optionsLocale options) = Inr [] \<and>
         recognizeNumber env utterance (optionsLocale options) = Inr (ms1 @ bad # ms2)"
    by auto
  from recognizeChoices_calls_fallback [OF assms(1) this]
  have "recognizeChoices env utterance choices options =
          Inr (sort_key mr_start (List.map_filter ?f (ms1 @ bad # ms2)))" .
  also have "List.map_filter ?f (ms1 @ bad # ms2) = List.map_filter ?f (ms1 @ ms2)"
    using n by (rule map_filter_drop)
  finally have "recognizeChoices env utterance choices options =
          Inr (sort_key mr_start (List.map_filter ?f (ms1 @ ms2)))" .
  moreover have "foldl (matchChoiceByIndex (parseInt env) (normalizeChoices choices)) [] (ms1 @ ms2) =
          List.map_filter ?f (ms1 @ ms2)"
    by (simp only: foldl_matchChoiceByIndex append_Nil)
  ultimately show ?thesis using one by simp
qed

text \<open>
  An instance: the value \<open>abc\<close> does not parse; the ordinals 1 and 2 around it are
  recognized, and 5, out of range for three choices, and a match without a resolution
  are discarded as well.
\<close>

theorem recognizeChoices_discards_malformed_witness:
  "malformed parseIntDecimal (normalizeChoices (Some colours)) (numberMatch (str ''x'') 4 4 (str ''abc'')) \<and>
   recognizeChoices
     (stubEnv []
        ([numberMatch (str ''first'') 12 16 (str ''1'')] @
         numberMatch (str ''x'') 4 4 (str ''abc'') #
         [numberMatch (str ''fifth'') 6 10 (str ''5''), numberMatch (str ''2nd'') 0 2 (str ''2''),
          \<lparr>mr_text = str ''y'', mr_start = 18, mr_end = 18, mr_typeName = str ''ordinal'',
            mr_resolution = None\<rparr>]) [])
     (str ''2nd x fifth first y'') (Some colours) None =
     Inr [foundChoice (str ''2nd'') 0 2 (str ''green'') 1, foundChoice (str ''first'') 12 16 (str ''red'') 0]"
proof -
  let ?bad = "numberMatch (str ''x'') 4 4 (str ''abc'')"
  let ?ms1 = "[numberMatch (str ''first'') 12 16 (str ''1'')]"
  let ?ms2 = "[numberMatch (str ''fifth'') 6 10 (str ''5''), numberMatch (str ''2nd'') 0 2 (str ''2''),
    \<lparr>mr_text = str ''y'', mr_start = 18, mr_end = 18, mr_typeName = str ''ordinal'',
      mr_resolution = None\<rparr>]"
  let ?env = "stubEnv [] (?ms1 @ ?bad # ?ms2) [] :: unit Env"
  have m: "malformed parseIntDecimal (normalizeChoices (Some colours)) ?bad"
    by (simp add: malformed_def stub_simps)
  have f: "findChoices ?env (str ''2nd x fifth first y'') (normalizeChoices (Some colours)) None = Inr []"
    by (simp add: stubEnv_def)
  have ordinal: "recognizeOrdinal ?env (str ''2nd x fifth first y'') (optionsLocale None) =
      Inr (?ms1 @ ?bad # ?ms2) \<or>
    recognizeOrdinal ?env (str ''2nd x fifth first y'') (optionsLocale None) = Inr [] \<and>
    recognizeNumber ?env (str ''2nd x fifth first y'') (optionsLocale None) = Inr (?ms1 @ ?bad # ?ms2)"
    by (simp add: stubEnv_def)
  have p: "parseInt ?env = parseIntDecimal" by (simp add: stubEnv_def)
  have v: "sort_key mr_start
      (foldl (matchChoiceByIndex parseIntDecimal (normalizeChoices (Some colours))) [] (?ms1 @ ?ms2)) =
      [foundChoice (str ''2nd'') 0 2 (str ''green'') 1, foundChoice (str ''first'') 12 16 (str ''red'') 0]"
    by (simp add: stub_simps)
  from recognizeChoices_discards_malformed [OF f ordinal, unfolded p, OF m, of "[]"]
  have "recognizeChoices ?env (str ''2nd x fifth first y'') (Some colours) None =
     Inr [foundChoice (str ''2nd'') 0 2 (str ''green'') 1, foundChoice (str ''first'') 12 16 (str ''red'') 0]"
    unfolding v by blast
  with m show ?thesis by blast
qed

text \<open>
  C6: the number recognizer is invoked if and only if the name match returned no results
  and the ordinal recognizer returned an empty list. In particular, if the ordinal
  recognizer returns matches that are all discarded, the numeric strategy is not
  attempted and the result is empty.
\<close>

theorem recognizeNumber_invoked_iff:
  "(RecognizeNumber \<in> set (snd (recognizeChoices_calls env utterance choices options)) \<longleftrightarrow>
      findChoices env utterance (normalizeChoices choices) options = Inr [] \<and>
      recognizeOrdinal env utterance (optionsLocale options) = Inr []) \<and>
   (findChoices env utterance (normalizeChoices choices) options = Inr [] \<and>
    recognizeOrdinal env utterance (optionsLocale options) = Inr ordinals \<and> ordinals \<noteq> [] \<and>
    (\<forall>m \<in> set ordinals. malformed (parseInt env) (normalizeChoices choices) m) \<longrightarrow>
      recognizeChoices_calls env utterance choices options =
        (Inr [], [FindChoices, RecognizeOrdinal]))"
proof (intro conjI impI)
  show "RecognizeNumber \<in> set (snd (recognizeChoices_calls env utterance choices options)) \<longleftrightarrow>
      findChoices env utterance (normalizeChoices choices) options = Inr [] \<and>
      recognizeOrdinal env utterance (optionsLocale options) = Inr []"
    by (simp add: recognizeChoices_calls_cases split: sum.splits)
next
  assume a: "findChoices env utterance (normalizeChoices choices) options = Inr [] \<and>
    recognizeOrdinal env utterance (optionsLocale options) = Inr ordinals \<and> ordinals \<noteq> [] \<and>
    (\<forall>m \<in> set ordinals. malformed (parseInt env) (normalizeChoices choices) m)"
  then have "\<forall>m \<in> set ordinals. fallbackResult_spec (parseInt env) (normalizeChoices choices) m = None"
    by (simp add: malformed_iff)
  then have "set (List.map_filter (fallbackResult_spec (parseInt env) (normalizeChoices choices)) ordinals) = {}"
    by (auto simp: set_map_filter)
  then have "List.map_filter (fallbackResult_spec (parseInt env) (normalizeChoices choices)) ordinals = []"
    by simp
  with a show "recognizeChoices_calls env utterance choices options =
        (Inr [], [FindChoices, RecognizeOrdinal])"
    by (simp add: recognizeChoices_calls_cases)
qed

text \<open>
  Two instances. "the fifth one" against three choices: the number recognizer, which
  would return 2, is not asked. "3": the name match and the ordinal recognizer find
  nothing, and the number recognizer is asked.
\<close>

theorem recognizeNumber_invoked_iff_witness:
  "malformed parseIntDecimal (normalizeChoices (Some colours)) (numberMatch (str ''fifth'') 4 8 (str ''5'')) \<and>
   recognizeChoices_calls
     (stubEnv [] [numberMatch (str ''fifth'') 4 8 (str ''5'')] [numberMatch (str ''2'') 14 14 (str ''2'')])
     (str ''the fifth one 2'') (Some colours) None = (Inr [], [FindChoices, RecognizeOrdinal]) \<and>
   RecognizeNumber \<in> set (snd (recognizeChoices_calls
     (stubEnv [] [] [numberMatch (str ''3'') 0 0 (str ''3'')]) (str ''3'') (Some colours) None))"
proof -
  let ?env = "stubEnv [] [numberMatch (str ''fifth'') 4 8 (str ''5'')]
    [numberMatch (str ''2'') 14 14 (str ''2'')] :: unit Env"
  let ?num = "stubEnv [] [] [numberMatch (str ''3'') 0 0 (str ''3'')] :: unit Env"
  have m: "malformed parseIntDecimal (normalizeChoices (Some colours))
             (numberMatch (str ''fifth'') 4 8 (str ''5''))"
    by (simp add: malformed_def stub_simps)
  have h: "findChoices ?env (str ''the fifth one 2'') (normalizeChoices (Some colours)) None = Inr [] \<and>
    recognizeOrdinal ?env (str ''the fifth one 2'') (optionsLocale None) =
      Inr [numberMatch (str ''fifth'') 4 8 (str ''5'')] \<and>
    [numberMatch (str ''fifth'') 4 8 (str ''5'')] \<noteq> [] \<and>
    (\<forall>m \<in> set [numberMatch (str ''fifth'') 4 8 (str ''5'')].
       malformed (parseInt ?env) (normalizeChoices (Some colours)) m)"
    using m by (simp add: stubEnv_def)
  have e: "findChoices ?num (str ''3'') (normalizeChoices (Some colours)) None = Inr [] \<and>
    recognizeOrdinal ?num (str ''3'') (optionsLocale None) = Inr []"
    by (simp add: stubEnv_def)
  from recognizeNumber_invoked_iff
    [of ?env "str ''the fifth one 2''" "Some colours" None "[numberMatch (str ''fifth'') 4 8 (str ''5'')]"]
    recognizeNumber_invoked_iff [of ?num "str ''3''" "Some colours" None "[]"]
    h m e
  show ?thesis by blast
qed

end
